theory Spec2Isabelle
  imports Main "HOL-Library.Word"
begin

unbundle bit_operations_syntax

section \<open>Address spaces, the two-level page table and the fault handler\<close>

text \<open>
  A shallow embedding of \<^verbatim>\<open>kern/vm/addrspace.c\<close> (the address-space functions and the
  page-table and fault-handling functions that follow them in the same file).
  Addresses, sizes and page-table entries are 32-bit machine words. The kernel runs the
  functions one at a time here: the page-table lock is not part of the state.
\<close>

type_synonym vaddr_t = "32 word"
type_synonym paddr_t = "32 word"
type_synonym size_t = "32 word"

subsection \<open>Constants of the kernel headers\<close>

text \<open>
  Modelled from the spec: the macros of the machine headers (\<^verbatim>\<open>vm.h\<close>, \<^verbatim>\<open>tlb.h\<close>,
  \<^verbatim>\<open>errno.h\<close>) and the two array sizes are used by the file but declared outside it.
  The spec names a page offset of 12 bits (4096-byte pages), a first-level array of one
  frame's worth of slots (1024 four-byte slots, as many as 10 index bits address, and the
  same for a second-level array), the user/kernel boundary, the \<^emph>\<open>valid\<close> and
  \<^emph>\<open>dirty\<close> flag bits of an entry and the kernel-mapped alias of a physical frame.
  The values are those of the MIPS port of OS/161, for which the file is written: the
  boundary \<open>MIPS_KSEG0\<close> is \<open>0x80000000\<close>, the alias of the physical address \<open>p\<close> is
  \<open>p + MIPS_KSEG0\<close>, and \<open>KVADDR_TO_PADDR\<close> subtracts the same base again. The loops
  of the file are bounded by \<open>PT_SIZE\<close> and, in \<^verbatim>\<open>as_destroy\<close>, by \<open>PAGETABLE_SIZE\<close>.
\<close>

definition PAGE_SIZE :: "32 word" where "PAGE_SIZE = 4096"
definition PAGE_FRAME :: "32 word" where "PAGE_FRAME = 0xfffff000"
definition MIPS_KSEG0 :: "32 word" where "MIPS_KSEG0 = 0x80000000"
definition TLBLO_DIRTY :: "32 word" where "TLBLO_DIRTY = 0x400"
definition TLBLO_VALID :: "32 word" where "TLBLO_VALID = 0x200"
definition PT_SIZE :: nat where "PT_SIZE = 1024"
definition PAGETABLE_SIZE :: nat where "PAGETABLE_SIZE = 1024"

definition PADDR_TO_KVADDR :: "paddr_t \<Rightarrow> vaddr_t" where
  "PADDR_TO_KVADDR p = p + MIPS_KSEG0"

definition KVADDR_TO_PADDR :: "vaddr_t \<Rightarrow> paddr_t" where
  "KVADDR_TO_PADDR v = v - MIPS_KSEG0"

definition VM_FAULT_READ :: int where "VM_FAULT_READ = 0"
definition VM_FAULT_WRITE :: int where "VM_FAULT_WRITE = 1"
definition VM_FAULT_READONLY :: int where "VM_FAULT_READONLY = 2"

text \<open>The value a function returns: \<open>OK\<close> is the C return value 0, the others are the
  error numbers of \<^verbatim>\<open>errno.h\<close>.\<close>

datatype errno = OK | ENOMEM | EFAULT | EINVAL

subsection \<open>Regions and address spaces\<close>

text \<open>
  Modelled from the spec: \<^verbatim>\<open>struct region\<close> and \<^verbatim>\<open>struct addrspace\<close> are declared in
  \<^verbatim>\<open>addrspace.h\<close>. The fields are the ones the functions read and write; the three
  permissions and the saved permission are truth values, as the spec's data model has
  them, and a C \<^verbatim>\<open>int\<close> stored into one of them counts as true when it is not 0.
  The linked list of regions is a list, the head of the C list first.
\<close>

record region =
  vaddr :: vaddr_t
  memsize :: size_t
  readable :: bool
  writeable :: bool
  executable :: bool
  old_writeable :: bool

record addrspace =
  region_list :: "region list"
  pagetable :: vaddr_t

subsection \<open>Kernel memory\<close>

text \<open>
  Modelled from the spec: the frame provider (\<^verbatim>\<open>alloc_kpages\<close>, \<^verbatim>\<open>free_kpages\<close>), the
  kernel heap (\<^verbatim>\<open>kmalloc\<close>, \<^verbatim>\<open>kfree\<close>) and the TLB primitives are external to the file.
  The frame provider hands out the kernel address of a free page, or 0 when none is left;
  the kernel heap hands out the address of a block for an array of \<open>PT_SIZE\<close> entries,
  or \<open>NULL\<close> (0) when none is left, and keeps a count of the small records
  (\<^verbatim>\<open>struct region\<close>, \<^verbatim>\<open>struct addrspace\<close>) it has handed out.  Memory is an explicit
  store: \<open>tabs\<close> gives the array of entries that starts at an address (a first-level
  or a second-level array), \<open>frames\<close> the bytes of the page at an address. Allocating
  and freeing leave the contents alone, so a fresh array holds whatever the store had
  there and a freed one can still be read through a stale pointer. The TLB is the list
  of the entries inserted since it was last invalidated.
\<close>

record kernel =
  free_pages :: "vaddr_t list"
  used_pages :: "vaddr_t list"
  free_blocks :: "vaddr_t list"
  used_blocks :: "vaddr_t list"
  free_recs :: nat
  used_recs :: nat
  tabs :: "vaddr_t \<Rightarrow> nat \<Rightarrow> paddr_t"
  frames :: "vaddr_t \<Rightarrow> nat \<Rightarrow> 8 word"
  tlb :: "(32 word \<times> 32 word) list"

definition alloc_kpages :: "kernel \<Rightarrow> vaddr_t \<times> kernel" where
  "alloc_kpages k =
     (case free_pages k of
        [] \<Rightarrow> (0, k)
      | p # ps \<Rightarrow> (p, k\<lparr>free_pages := ps, used_pages := p # used_pages k\<rparr>))"

definition free_kpages :: "vaddr_t \<Rightarrow> kernel \<Rightarrow> kernel" where
  "free_kpages p k =
     (if p \<in> set (used_pages k)
      then k\<lparr>used_pages := remove1 p (used_pages k), free_pages := p # free_pages k\<rparr>
      else k)"

definition kmalloc_table :: "kernel \<Rightarrow> vaddr_t \<times> kernel" where
  "kmalloc_table k =
     (case free_blocks k of
        [] \<Rightarrow> (0, k)
      | p # ps \<Rightarrow> (p, k\<lparr>free_blocks := ps, used_blocks := p # used_blocks k\<rparr>))"

text \<open>\<^verbatim>\<open>kfree\<close> of a pointer: a block of the heap goes back to the heap; any other
  pointer is a whole page and goes back to the frame provider.\<close>

definition kfree :: "vaddr_t \<Rightarrow> kernel \<Rightarrow> kernel" where
  "kfree p k =
     (if p \<in> set (used_blocks k)
      then k\<lparr>used_blocks := remove1 p (used_blocks k), free_blocks := p # free_blocks k\<rparr>
      else free_kpages p k)"

definition kmalloc_rec :: "kernel \<Rightarrow> kernel option" where
  "kmalloc_rec k =
     (if free_recs k = 0 then None
      else Some (k\<lparr>free_recs := free_recs k - 1, used_recs := Suc (used_recs k)\<rparr>))"

definition kfree_rec :: "kernel \<Rightarrow> kernel" where
  "kfree_rec k = k\<lparr>free_recs := Suc (free_recs k), used_recs := used_recs k - 1\<rparr>"

definition tab_read :: "vaddr_t \<Rightarrow> nat \<Rightarrow> kernel \<Rightarrow> paddr_t" where
  "tab_read p i k = tabs k p i"

definition tab_write :: "vaddr_t \<Rightarrow> nat \<Rightarrow> paddr_t \<Rightarrow> kernel \<Rightarrow> kernel" where
  "tab_write p i v k = k\<lparr>tabs := (tabs k)(p := (tabs k p)(i := v))\<rparr>"

definition bzero :: "vaddr_t \<Rightarrow> kernel \<Rightarrow> kernel" where
  "bzero v k =
     k\<lparr>frames := (frames k)(v := (\<lambda>off. if off < unat PAGE_SIZE then 0 else frames k v off))\<rparr>"

definition memmove :: "vaddr_t \<Rightarrow> vaddr_t \<Rightarrow> kernel \<Rightarrow> kernel" where
  "memmove dst src k =
     k\<lparr>frames := (frames k)(dst :=
         (\<lambda>off. if off < unat PAGE_SIZE then frames k src off else frames k dst off))\<rparr>"

definition load_tlb :: "32 word \<Rightarrow> 32 word \<Rightarrow> kernel \<Rightarrow> kernel" where
  "load_tlb entryHi entryLo k = k\<lparr>tlb := (entryHi, entryLo) # tlb k\<rparr>"

text \<open>\<^verbatim>\<open>curproc\<close> is \<open>None\<close> when there is no current process; a process has an address
  space or none.\<close>

definition proc_getas :: "addrspace option option \<Rightarrow> addrspace option" where
  "proc_getas curproc = (case curproc of None \<Rightarrow> None | Some a \<Rightarrow> a)"

subsection \<open>Address-space functions\<close>

definition as_create :: "kernel \<Rightarrow> addrspace option \<times> kernel" where
  "as_create k =
     (case kmalloc_rec k of
        None \<Rightarrow> (None, k)
      | Some k1 \<Rightarrow>
          (case alloc_kpages k1 of
             (pt, k2) \<Rightarrow>
               if pt = 0 then (None, kfree_rec k2)
               else (Some \<lparr>region_list = [], pagetable = pt\<rparr>,
                     fold (\<lambda>i. tab_write pt i 0) [0..<PT_SIZE] k2)))"

text \<open>The overlap scan of \<^verbatim>\<open>as_define_region\<close>: its \<^verbatim>\<open>while\<close> loop over the list.\<close>

fun region_overlap :: "vaddr_t \<Rightarrow> size_t \<Rightarrow> region list \<Rightarrow> bool" where
  "region_overlap v m [] = False"
| "region_overlap v m (cur # rest) =
     (if v \<le> vaddr cur + memsize cur \<and> v + m \<ge> vaddr cur then True
      else region_overlap v m rest)"

definition as_define_region ::
  "addrspace \<Rightarrow> vaddr_t \<Rightarrow> size_t \<Rightarrow> int \<Rightarrow> int \<Rightarrow> int \<Rightarrow> kernel \<Rightarrow> errno \<times> addrspace \<times> kernel" where
  "as_define_region as va sz rd wr ex k =
     (let sz1 = sz + (va AND NOT PAGE_FRAME);
          va1 = va AND PAGE_FRAME;
          sz2 = (sz1 + PAGE_SIZE - 1) AND PAGE_FRAME
      in if va1 + sz2 > MIPS_KSEG0 then (EFAULT, as, k)
         else if region_overlap va1 sz2 (region_list as) then (EINVAL, as, k)
         else (case kmalloc_rec k of
                 None \<Rightarrow> (ENOMEM, as, k)
               | Some k1 \<Rightarrow>
                   (OK,
                    as\<lparr>region_list :=
                         \<lparr>vaddr = va1, memsize = sz2, readable = (rd \<noteq> 0),
                          writeable = (wr \<noteq> 0), executable = (ex \<noteq> 0),
                          old_writeable = (wr \<noteq> 0)\<rparr> # region_list as\<rparr>,
                    k1)))"

text \<open>
  The page-normalized range of a declaration as the spec words it, on unbounded natural
  numbers: the base rounded down to a page boundary, and the end of the original range
  rounded up to one. \<^verbatim>\<open>as_define_region\<close> computes the same two values in 32-bit
  arithmetic, where they can wrap around.
\<close>

definition spec_norm_base :: "vaddr_t \<Rightarrow> nat" where
  "spec_norm_base va = unat va div 4096 * 4096"

definition spec_norm_end :: "vaddr_t \<Rightarrow> size_t \<Rightarrow> nat" where
  "spec_norm_end va sz = (unat va + unat sz + 4095) div 4096 * 4096"

definition as_prepare_load :: "addrspace \<Rightarrow> errno \<times> addrspace" where
  "as_prepare_load as =
     (OK, as\<lparr>region_list :=
               map (\<lambda>cur. cur\<lparr>old_writeable := writeable cur, writeable := True\<rparr>)
                   (region_list as)\<rparr>)"

definition as_activate :: "addrspace option option \<Rightarrow> kernel \<Rightarrow> kernel" where
  "as_activate curproc k =
     (case proc_getas curproc of None \<Rightarrow> k | Some as \<Rightarrow> k\<lparr>tlb := []\<rparr>)"

definition as_complete_load ::
  "addrspace option option \<Rightarrow> addrspace \<Rightarrow> kernel \<Rightarrow> errno \<times> addrspace \<times> kernel" where
  "as_complete_load curproc as k =
     (OK,
      as\<lparr>region_list := map (\<lambda>cur. cur\<lparr>writeable := old_writeable cur\<rparr>) (region_list as)\<rparr>,
      as_activate curproc k)"

subsection \<open>Page-table functions\<close>

definition vm_add_l1_entry :: "vaddr_t \<Rightarrow> nat \<Rightarrow> kernel \<Rightarrow> errno \<times> kernel" where
  "vm_add_l1_entry pt pt1_index k =
     (case kmalloc_table k of
        (p, k1) \<Rightarrow>
          let k2 = tab_write pt pt1_index p k1
          in if tab_read pt pt1_index k2 = 0 then (ENOMEM, k2)
             else (OK, fold (\<lambda>i s. tab_write (tab_read pt pt1_index s) i 0 s) [0..<PT_SIZE] k2))"

definition vm_add_l2_entry :: "vaddr_t \<Rightarrow> nat \<Rightarrow> nat \<Rightarrow> 32 word \<Rightarrow> kernel \<Rightarrow> errno \<times> kernel" where
  "vm_add_l2_entry pt pt1_index pt2_index dirty k =
     (case alloc_kpages k of
        (v_page_addrs, k1) \<Rightarrow>
          if v_page_addrs = 0 then (ENOMEM, k1)
          else let k2 = bzero v_page_addrs k1;
                   p_frame_num = KVADDR_TO_PADDR v_page_addrs AND PAGE_FRAME
               in (OK, tab_write (tab_read pt pt1_index k2) pt2_index
                         (p_frame_num OR dirty OR TLBLO_VALID) k2))"

text \<open>The region scan of \<^verbatim>\<open>vm_fault\<close>: the first region that holds the address.\<close>

fun find_region :: "vaddr_t \<Rightarrow> region list \<Rightarrow> region option" where
  "find_region a [] = None"
| "find_region a (cur_reg # rest) =
     (if a \<ge> vaddr cur_reg \<and> a < vaddr cur_reg + memsize cur_reg then Some cur_reg
      else find_region a rest)"

definition pt1_bits :: "vaddr_t \<Rightarrow> 32 word" where
  "pt1_bits faultaddress = drop_bit 22 (KVADDR_TO_PADDR faultaddress)"

definition pt2_bits :: "vaddr_t \<Rightarrow> 32 word" where
  "pt2_bits faultaddress = drop_bit 22 (push_bit 10 (KVADDR_TO_PADDR faultaddress))"

text \<open>The part of \<^verbatim>\<open>vm_fault\<close> under the lock, once the address space is known.\<close>

definition vm_fault_as :: "addrspace \<Rightarrow> vaddr_t \<Rightarrow> kernel \<Rightarrow> errno \<times> kernel" where
  "vm_fault_as as faultaddress k =
     (let i1 = unat (pt1_bits faultaddress);
          i2 = unat (pt2_bits faultaddress);
          absent = (tab_read (pagetable as) i1 k = 0);
          (check, k1) = (if absent then vm_add_l1_entry (pagetable as) i1 k else (OK, k))
      in if check \<noteq> OK then (check, k1)
         else let alloc_pt1 = absent
              in if tab_read (tab_read (pagetable as) i1 k1) i2 k1 = 0
                 then (case find_region faultaddress (region_list as) of
                         None \<Rightarrow>
                           (EFAULT,
                            if alloc_pt1 then kfree (tab_read (pagetable as) i1 k1) k1 else k1)
                       | Some cur_reg \<Rightarrow>
                           let dirty = (if writeable cur_reg then TLBLO_DIRTY else 0);
                               (check2, k2) = vm_add_l2_entry (pagetable as) i1 i2 dirty k1
                           in if check2 \<noteq> OK
                              then (check2,
                                    if alloc_pt1 then kfree (tab_read (pagetable as) i1 k2) k2
                                    else k2)
                              else (OK,
                                    load_tlb (faultaddress AND PAGE_FRAME)
                                      (tab_read (tab_read (pagetable as) i1 k2) i2 k2) k2))
                 else (OK,
                       load_tlb (faultaddress AND PAGE_FRAME)
                         (tab_read (tab_read (pagetable as) i1 k1) i2 k1) k1))"

definition vm_fault ::
  "addrspace option option \<Rightarrow> int \<Rightarrow> vaddr_t \<Rightarrow> kernel \<Rightarrow> errno \<times> kernel" where
  "vm_fault curproc faulttype faultaddress k =
     (if curproc = None then (EFAULT, k)
      else if faulttype = VM_FAULT_READONLY then (EFAULT, k)
      else if faulttype \<noteq> VM_FAULT_READ \<and> faulttype \<noteq> VM_FAULT_WRITE then (EINVAL, k)
      else (case proc_getas curproc of
              None \<Rightarrow> (EFAULT, k)
            | Some as \<Rightarrow> vm_fault_as as faultaddress k))"

text \<open>
  The inner loop of \<^verbatim>\<open>vm_copy_pt\<close> over the second-level indices \<open>js\<close> of slot \<open>i\<close>.
  The array \<open>new_pt[i]\<close> comes from \<^verbatim>\<open>kmalloc\<close> and is not checked: when it is
  \<open>NULL\<close> the store into \<open>new_pt[i][j]\<close> goes through a null pointer and the kernel
  does not return from it, which is the result \<open>None\<close>.
\<close>

fun vm_copy_l2 ::
  "vaddr_t \<Rightarrow> vaddr_t \<Rightarrow> nat \<Rightarrow> nat list \<Rightarrow> kernel \<Rightarrow> (errno \<times> kernel) option" where
  "vm_copy_l2 old_pt new_pt i [] k = Some (OK, k)"
| "vm_copy_l2 old_pt new_pt i (j # js) k =
     (if tab_read (tab_read old_pt i k) j k \<noteq> 0
      then (case alloc_kpages k of
              (v_page_addrs, k1) \<Rightarrow>
                if v_page_addrs = 0 then Some (ENOMEM, k1)
                else let k2 = bzero v_page_addrs k1;
                         k3 = memmove v_page_addrs
                                (PADDR_TO_KVADDR (tab_read (tab_read old_pt i k2) j k2 AND PAGE_FRAME))
                                k2;
                         dirty = tab_read (tab_read old_pt i k3) j k3 AND TLBLO_DIRTY
                     in if tab_read new_pt i k3 = 0 then None
                        else vm_copy_l2 old_pt new_pt i js
                               (tab_write (tab_read new_pt i k3) j
                                  ((KVADDR_TO_PADDR v_page_addrs AND PAGE_FRAME) OR dirty OR TLBLO_VALID)
                                  k3))
      else if tab_read new_pt i k = 0 then None
           else vm_copy_l2 old_pt new_pt i js (tab_write (tab_read new_pt i k) j 0 k))"

text \<open>The outer loop of \<^verbatim>\<open>vm_copy_pt\<close> over the first-level indices.\<close>

fun vm_copy_l1 ::
  "vaddr_t \<Rightarrow> vaddr_t \<Rightarrow> nat list \<Rightarrow> kernel \<Rightarrow> (errno \<times> kernel) option" where
  "vm_copy_l1 old_pt new_pt [] k = Some (OK, k)"
| "vm_copy_l1 old_pt new_pt (i # rest) k =
     (if tab_read old_pt i k = 0 then vm_copy_l1 old_pt new_pt rest k
      else (case kmalloc_table k of
              (p, k1) \<Rightarrow>
                (case vm_copy_l2 old_pt new_pt i [0..<PT_SIZE] (tab_write new_pt i p k1) of
                   None \<Rightarrow> None
                 | Some (r, k2) \<Rightarrow>
                     if r \<noteq> OK then Some (r, k2) else vm_copy_l1 old_pt new_pt rest k2)))"

definition vm_copy_pt :: "vaddr_t \<Rightarrow> vaddr_t \<Rightarrow> kernel \<Rightarrow> (errno \<times> kernel) option" where
  "vm_copy_pt old_pt new_pt k = vm_copy_l1 old_pt new_pt [0..<PT_SIZE] k"

subsection \<open>Destroying and copying an address space\<close>

text \<open>The inner loop of \<^verbatim>\<open>as_destroy\<close>: the frames of the second-level array in slot \<open>i\<close>.\<close>

definition as_destroy_l2 :: "vaddr_t \<Rightarrow> nat \<Rightarrow> kernel \<Rightarrow> kernel" where
  "as_destroy_l2 pt i k =
     fold (\<lambda>j s. if tab_read (tab_read pt i s) j s \<noteq> 0
                 then free_kpages (PADDR_TO_KVADDR (tab_read (tab_read pt i s) j s) AND PAGE_FRAME) s
                 else s)
          [0..<PAGETABLE_SIZE] k"

definition as_destroy :: "addrspace \<Rightarrow> kernel \<Rightarrow> kernel" where
  "as_destroy as k =
     (let k1 = fold (\<lambda>i s. if tab_read (pagetable as) i s \<noteq> 0
                           then as_destroy_l2 (pagetable as) i s else s)
                    [0..<PAGETABLE_SIZE] k;
          k2 = kfree (pagetable as) k1;
          k3 = fold (\<lambda>tmp s. kfree_rec s) (region_list as) k2
      in kfree_rec k3)"

text \<open>The first loop of \<^verbatim>\<open>as_copy\<close>: every region of the source is declared in the
  new address space; the loop stops at the first declaration that fails.\<close>

fun as_copy_regions ::
  "region list \<Rightarrow> addrspace \<Rightarrow> kernel \<Rightarrow> errno \<times> addrspace \<times> kernel" where
  "as_copy_regions [] newas k = (OK, newas, k)"
| "as_copy_regions (cur # rest) newas k =
     (case as_define_region newas (vaddr cur) (memsize cur)
             (if readable cur then 1 else 0) (if writeable cur then 1 else 0)
             (if executable cur then 1 else 0) k of
        (result, newas1, k1) \<Rightarrow>
          if result \<noteq> OK then (result, newas1, k1) else as_copy_regions rest newas1 k1)"

text \<open>\<^verbatim>\<open>as_copy\<close> returns its result code, the address space stored into \<open>*ret\<close> (if
  any) and the kernel memory it leaves. The value of \<^verbatim>\<open>vm_copy_pt\<close> is not looked at.\<close>

definition as_copy ::
  "addrspace \<Rightarrow> kernel \<Rightarrow> (errno \<times> addrspace option \<times> kernel) option" where
  "as_copy old k =
     (case as_create k of
        (None, k1) \<Rightarrow> Some (ENOMEM, None, k1)
      | (Some newas, k1) \<Rightarrow>
          (case as_copy_regions (region_list old) newas k1 of
             (result, newas1, k2) \<Rightarrow>
               if result \<noteq> OK then Some (result, None, as_destroy newas1 k2)
               else (case vm_copy_pt (pagetable old) (pagetable newas1) k2 of
                       None \<Rightarrow> None
                     | Some (r, k3) \<Rightarrow> Some (OK, Some newas1, k3))))"

subsection \<open>A small address space\<close>

text \<open>
  The scenario of the design notes, used to run the functions: a code region
  \<open>[0x1000, 0x3000)\<close> that may be read and executed but not written, in an address space
  whose first-level array is the page at \<open>0x80010000\<close>. In \<open>ex_kernel\<close> nothing is mapped
  yet and one page and one second-level block are free; in \<open>ex_resident\<close> the page of
  \<open>0x1000\<close> is mapped read-only to the frame at physical address \<open>0x30000\<close>.
\<close>

definition ex_code :: region where
  "ex_code = \<lparr>vaddr = 0x1000, memsize = 0x2000, readable = True, writeable = False,
              executable = True, old_writeable = False\<rparr>"

definition ex_as :: addrspace where
  "ex_as = \<lparr>region_list = [ex_code], pagetable = 0x80010000\<rparr>"

definition ex_kernel :: kernel where
  "ex_kernel = \<lparr>free_pages = [0x80030000], used_pages = [0x80010000],
                free_blocks = [0x80020000], used_blocks = [],
                free_recs = 4, used_recs = 2,
                tabs = (\<lambda>p i. 0), frames = (\<lambda>p off. 0), tlb = []\<rparr>"

definition ex_tabs :: "vaddr_t \<Rightarrow> nat \<Rightarrow> paddr_t" where
  "ex_tabs p i =
     (if p = 0x80010000 \<and> i = 512 then 0x80020000
      else if p = 0x80020000 \<and> i = 1 then 0x30200
      else 0)"

definition ex_resident :: kernel where
  "ex_resident = \<lparr>free_pages = [], used_pages = [0x80030000, 0x80010000],
                  free_blocks = [], used_blocks = [0x80020000],
                  free_recs = 4, used_recs = 2,
                  tabs = ex_tabs, frames = (\<lambda>p off. 0), tlb = []\<rparr>"

text \<open>
  A duplication under memory pressure: \<open>ex_low\<close> is \<open>ex_resident\<close> with one free page
  and one free second-level block, enough for the new first-level array and the new
  second-level array but not for the copy of the resident frame. \<open>ex_newas\<close> is the
  address space \<^verbatim>\<open>as_copy\<close> builds from \<open>ex_as\<close>, \<open>ex_mid\<close> the kernel memory when
  \<^verbatim>\<open>as_copy\<close> calls \<^verbatim>\<open>vm_copy_pt\<close>, and \<open>ex_half\<close> the kernel memory when \<^verbatim>\<open>vm_copy_pt\<close>
  gives up.
\<close>

definition ex_low :: kernel where
  "ex_low = ex_resident\<lparr>free_pages := [0x80040000], free_blocks := [0x80050000]\<rparr>"

definition ex_newas :: addrspace where
  "ex_newas = \<lparr>region_list = [ex_code], pagetable = 0x80040000\<rparr>"

definition ex_mid :: kernel where
  "ex_mid = \<lparr>free_pages = [], used_pages = [0x80040000, 0x80030000, 0x80010000],
             free_blocks = [0x80050000], used_blocks = [0x80020000],
             free_recs = 2, used_recs = 4,
             tabs = ex_tabs(0x80040000 := (\<lambda>i. if i < PT_SIZE then 0 else ex_tabs 0x80040000 i)),
             frames = (\<lambda>p off. 0), tlb = []\<rparr>"

definition ex_half :: kernel where
  "ex_half = ex_mid\<lparr>free_blocks := [], used_blocks := [0x80050000, 0x80020000],
               tabs := (tabs ex_mid)(0x80040000 := (tabs ex_mid 0x80040000)(512 := 0x80050000),
                                     0x80050000 := (tabs ex_mid 0x80050000)(0 := 0))\<rparr>"

section \<open>Properties\<close>

subsection \<open>Words and flag bits\<close>

lemma sub_pow_xor:
  fixes a :: "32 word"
  assumes "(2 ^ n :: 32 word) + 2 ^ n = 0"
  shows "a - 2 ^ n = a XOR 2 ^ n"
proof (cases "bit a n")
  case True
  then have "NOT a AND (2 ^ n::32 word) = 0"
    by - (rule bit_word_eqI, auto simp: bit_simps)
  then show ?thesis
    by (simp only: disjunctive_diff_eq_and_not disjunctive_and_not_eq_xor)
next
  case False
  then have "a AND (2 ^ n::32 word) = 0"
    by - (rule bit_word_eqI, auto simp: bit_simps)
  then have "a + 2 ^ n = a XOR 2 ^ n"
    by (rule disjunctive_add_eq_xor)
  moreover have "a - 2 ^ n = a + (2 ^ n::32 word)"
    using assms by (simp add: eq_diff_eq add.assoc)
  ultimately show ?thesis by simp
qed

lemma sub_kseg0_xor: "(a::32 word) - 0x80000000 = a XOR 0x80000000"
  using sub_pow_xor [of 31 a] by simp

lemma unat_drop_bit_22: "unat (drop_bit 22 (x :: 32 word)) < 1024"
proof -
  have "unat x < 2 ^ 32" using unsigned_less [of x] by simp
  then have "unat x div 2 ^ 22 < 1024" by simp
  then show ?thesis by (simp add: drop_bit_eq_div unat_div)
qed

lemma pt_bits_in_range: "unat (pt1_bits a) < PT_SIZE \<and> unat (pt2_bits a) < PT_SIZE"
  by (simp add: pt1_bits_def pt2_bits_def PT_SIZE_def unat_drop_bit_22)

lemma pow_consts:
  "PAGE_FRAME = NOT (mask 12)" "TLBLO_VALID = 2 ^ 9" "TLBLO_DIRTY = 2 ^ 10"
  by (simp_all add: PAGE_FRAME_def TLBLO_VALID_def TLBLO_DIRTY_def mask_eq_exp_minus_1)

lemma flag_clear_gen:
  fixes x :: "32 word"
  assumes "n < 12" "m < 12" "m \<noteq> n"
  shows "((x AND NOT (mask 12)) OR 2 ^ m) AND 2 ^ n = 0"
  using assms by - (rule bit_word_eqI, auto simp: bit_simps)

lemma flag_set_gen:
  fixes x :: "32 word"
  shows "(x OR 2 ^ n OR y) AND 2 ^ n = 2 ^ n"
  by (rule bit_word_eqI) (auto simp: bit_simps)

lemma entry_clean: "((x AND PAGE_FRAME) OR TLBLO_VALID) AND TLBLO_DIRTY = 0"
  unfolding pow_consts by (rule flag_clear_gen) simp_all

lemma entry_dirty:
  "((x AND PAGE_FRAME) OR TLBLO_DIRTY OR TLBLO_VALID) AND TLBLO_DIRTY = TLBLO_DIRTY"
  unfolding pow_consts by (rule flag_set_gen)

lemma nonzero_gen:
  fixes x :: "32 word"
  assumes "n < 32"
  shows "x OR d OR 2 ^ n \<noteq> 0"
proof -
  from assms have "bit (x OR d OR 2 ^ n) n" by (simp add: bit_simps)
  then show ?thesis by auto
qed

lemma entry_nonzero: "((x AND PAGE_FRAME) OR d OR TLBLO_VALID) \<noteq> 0"
  unfolding pow_consts by (rule nonzero_gen) simp

subsection \<open>The index split of the fault handler\<close>

text \<open>
  C6, as the code has it. The handler does not split the faulting address itself but
  \<open>KVADDR_TO_PADDR faultaddress\<close>, the address less \<open>0x80000000\<close> modulo \<open>2^32\<close>: the
  first-level index is the high 10 bits of the faulting address with the top bit
  inverted, the second-level index is the next 10 bits of the faulting address, and the
  low 12 bits play no part.
\<close>

theorem vm_fault_index_split:
  "pt1_bits a = drop_bit 22 a XOR 0x200 \<and> pt2_bits a = take_bit 10 (drop_bit 12 a)"
proof -
  have e: "(0x80000000::32 word) = push_bit 31 1" "(0x200 :: 32 word) = push_bit 9 1"
    by simp_all
  have "pt1_bits a = drop_bit 22 a XOR 0x200"
    unfolding pt1_bits_def KVADDR_TO_PADDR_def MIPS_KSEG0_def sub_kseg0_xor
    unfolding e
    by (rule bit_word_eqI) (auto simp: bit_simps)
  moreover have "pt2_bits a = take_bit 10 (drop_bit 12 a)"
    unfolding pt2_bits_def KVADDR_TO_PADDR_def MIPS_KSEG0_def sub_kseg0_xor
    unfolding e
    by (rule bit_word_eqI) (auto simp: bit_simps)
  ultimately show ?thesis by simp
qed

text \<open>
  C6 as stated fails: for the faulting address \<open>0x1000\<close> the high 10 bits are 0, and the
  handler uses first-level index 512.
\<close>

theorem vm_fault_index_counterexample:
  "pt1_bits 0x1000 \<noteq> drop_bit 22 0x1000"
  by (simp add: pt1_bits_def KVADDR_TO_PADDR_def MIPS_KSEG0_def)

subsection \<open>Declaring regions\<close>

lemma region_overlap_iff:
  "region_overlap v m rs \<longleftrightarrow>
     (\<exists>c \<in> set rs. v \<le> vaddr c + memsize c \<and> v + m \<ge> vaddr c)"
  by (induction rs) auto

text \<open>The 32-bit normalization of \<^verbatim>\<open>as_define_region\<close> gives the page-normalized range
  when the rounded-up end is below \<open>2^32\<close>.\<close>

lemma unat_page_floor: "unat (w AND PAGE_FRAME) = unat w div 4096 * 4096"
proof -
  have "w AND NOT (mask 12) = push_bit 12 (drop_bit 12 w)" for w :: "32 word"
    by (rule bit_word_eqI) (auto simp: bit_simps)
  then have "unat (w AND PAGE_FRAME) = unat (push_bit 12 (drop_bit 12 w))"
    by (simp add: pow_consts)
  also have "\<dots> = take_bit 32 (push_bit 12 (drop_bit 12 (unat w)))"
    by (simp add: unsigned_push_bit_eq unat_drop_bit_eq)
  also have "\<dots> = (unat w div 4096 * 4096) mod 2 ^ 32"
    by (simp add: take_bit_eq_mod push_bit_eq_mult drop_bit_eq_div)
  also have "\<dots> = unat w div 4096 * 4096"
  proof -
    have "unat w div 4096 * 4096 \<le> unat w" by simp
    moreover have "unat w < 2 ^ 32" using unsigned_less [of w] by simp
    ultimately show ?thesis by simp
  qed
  finally show ?thesis .
qed

lemma unat_page_offset: "unat (w AND NOT PAGE_FRAME) = unat w mod 4096"
proof -
  have "w AND NOT PAGE_FRAME = take_bit 12 w"
    by (simp add: pow_consts take_bit_eq_mask)
  then show ?thesis by (simp add: unsigned_take_bit_eq take_bit_eq_mod unat_mod)
qed

lemma norm_code:
  assumes "spec_norm_end va sz < 2 ^ 32"
  shows "unat (va AND PAGE_FRAME) = spec_norm_base va"
    and "unat ((va AND PAGE_FRAME) + ((sz + (va AND NOT PAGE_FRAME) + PAGE_SIZE - 1) AND PAGE_FRAME))
           = spec_norm_end va sz"
proof -
  let ?r = "unat va mod 4096"
  show b: "unat (va AND PAGE_FRAME) = spec_norm_base va"
    by (simp add: spec_norm_base_def unat_page_floor)
  let ?x = "unat sz + ?r + 4095"
  have a: "unat va + unat sz + 4095 = ?x + unat va div 4096 * 4096"
    using div_mult_mod_eq [of "unat va" 4096] by simp
  have b: "(x + q * 4096) div 4096 = x div 4096 + q" for x q :: nat
    by simp
  have "spec_norm_end va sz = (?x + unat va div 4096 * 4096) div 4096 * 4096"
    unfolding spec_norm_end_def by (simp only: a)
  also have "\<dots> = (?x div 4096 + unat va div 4096) * 4096"
    by (simp only: b)
  also have "\<dots> = unat va div 4096 * 4096 + ?x div 4096 * 4096"
    by (simp add: distrib_right)
  finally have e: "spec_norm_end va sz = unat va div 4096 * 4096 + ?x div 4096 * 4096" .
  have small: "?x < 2 ^ 32"
  proof -
    have "?x div 4096 * 4096 < 1048576 * 4096" using assms unfolding e by simp
    then have "?x div 4096 < 1048576" by simp
    then have "?x div 4096 * 4096 + 4096 \<le> 4294967296" by simp
    moreover have "?x < ?x div 4096 * 4096 + 4096"
      using div_mult_mod_eq [of ?x 4096] mod_less_divisor [of 4096 ?x] by linarith
    ultimately show ?thesis by simp
  qed
  have s1: "unat (sz + (va AND NOT PAGE_FRAME)) = unat sz + ?r"
    using small by (simp add: unat_add_lem [THEN iffD1] unat_page_offset)
  have w: "sz + (va AND NOT PAGE_FRAME) + PAGE_SIZE - 1 = sz + (va AND NOT PAGE_FRAME) + 4095"
    by (simp add: PAGE_SIZE_def)
  have s2: "unat (sz + (va AND NOT PAGE_FRAME) + PAGE_SIZE - 1) = unat sz + ?r + 4095"
    unfolding w using small s1 by (simp add: unat_add_lem [THEN iffD1])
  have s3: "unat ((sz + (va AND NOT PAGE_FRAME) + PAGE_SIZE - 1) AND PAGE_FRAME)
          = (unat sz + ?r + 4095) div 4096 * 4096"
    by (simp add: unat_page_floor s2)
  show "unat ((va AND PAGE_FRAME) + ((sz + (va AND NOT PAGE_FRAME) + PAGE_SIZE - 1) AND PAGE_FRAME))
           = spec_norm_end va sz"
  proof -
    let ?A = "va AND PAGE_FRAME"
    let ?B = "(sz + (va AND NOT PAGE_FRAME) + PAGE_SIZE - 1) AND PAGE_FRAME"
    have ab: "unat ?A + unat ?B = spec_norm_end va sz"
      by (simp only: e unat_page_floor s2)
    have "unat (?A + ?B) = unat ?A + unat ?B"
    proof (rule unat_add_lem [THEN iffD1])
      show "unat ?A + unat ?B < 2 ^ LENGTH(32)"
        unfolding ab using assms by simp
    qed
    with ab show ?thesis by simp
  qed
qed

text \<open>
  C8, as the code has it. Take a declaration whose page-normalized range ends below
  \<open>2^32\<close>, so that the 32-bit arithmetic does not wrap around, and that touches or
  overlaps an existing region (one whose own end is below \<open>2^32\<close>): its base is not
  above the region's end and its end is not below the region's base. The boundary check
  comes before the overlap scan, so the declaration returns \<open>EINVAL\<close> when the normalized
  range ends at or below the user/kernel boundary \<open>2^31\<close> and \<open>EFAULT\<close> when it ends above
  it; either way the address space and the kernel memory are unchanged.
\<close>

theorem as_define_region_overlap:
  assumes "cur \<in> set (region_list as)"
    and "spec_norm_end va sz < 2 ^ 32"
    and "unat (vaddr cur) + unat (memsize cur) < 2 ^ 32"
    and "spec_norm_base va \<le> unat (vaddr cur) + unat (memsize cur)"
    and "spec_norm_end va sz \<ge> unat (vaddr cur)"
  shows "as_define_region as va sz rd wr ex k =
         (if spec_norm_end va sz > 2 ^ 31 then EFAULT else EINVAL, as, k)"
proof -
  let ?va1 = "va AND PAGE_FRAME"
  let ?sz2 = "(sz + (va AND NOT PAGE_FRAME) + PAGE_SIZE - 1) AND PAGE_FRAME"
  note n = norm_code [OF assms(2)]
  have ce: "unat (vaddr cur + memsize cur) = unat (vaddr cur) + unat (memsize cur)"
    using assms(3) by (simp add: unat_add_lem [THEN iffD1])
  have o1: "?va1 \<le> vaddr cur + memsize cur"
    using assms(4) by (simp add: word_le_nat_alt n ce)
  have o2: "?va1 + ?sz2 \<ge> vaddr cur"
    using assms(5) by (simp add: word_le_nat_alt n)
  have ov: "region_overlap ?va1 ?sz2 (region_list as)"
    unfolding region_overlap_iff using assms(1) o1 o2 by blast
  have bd: "?va1 + ?sz2 > MIPS_KSEG0 \<longleftrightarrow> spec_norm_end va sz > 2 ^ 31"
    by (simp add: word_less_nat_alt n MIPS_KSEG0_def)
  show ?thesis
    using ov bd by (simp add: as_define_region_def Let_def)
qed

text \<open>Witness: a one-page declaration at \<open>0x3000\<close>, which only touches the end of the
  code region, is refused with \<open>EINVAL\<close>.\<close>

theorem as_define_region_overlap_witness:
  "as_define_region ex_as 0x3000 0x1000 1 1 0 ex_kernel = (EINVAL, ex_as, ex_kernel)"
  using as_define_region_overlap [of ex_code ex_as "0x3000" "0x1000" 1 1 0 ex_kernel]
  by (simp add: ex_as_def ex_code_def spec_norm_base_def spec_norm_end_def)

text \<open>
  C8 as stated fails: a declaration of \<open>0x80000000\<close> bytes at \<open>0x1000\<close> overlaps the code
  region (its base \<open>0x1000\<close> is not above the region's end \<open>0x3000\<close>, its end \<open>0x80001000\<close>
  is not below the region's base) and returns \<open>EFAULT\<close>, not \<open>EINVAL\<close>.
\<close>

theorem as_define_region_overlap_counterexample:
  "spec_norm_base 0x1000 \<le> unat (vaddr ex_code) + unat (memsize ex_code)
   \<and> spec_norm_end 0x1000 0x80000000 \<ge> unat (vaddr ex_code)
   \<and> fst (as_define_region ex_as 0x1000 0x80000000 1 0 1 ex_kernel) = EFAULT"
  by (simp add: as_define_region_def Let_def ex_as_def ex_code_def
        spec_norm_base_def spec_norm_end_def PAGE_FRAME_def PAGE_SIZE_def MIPS_KSEG0_def)

text \<open>
  Where the arithmetic wraps around, the checks see the wrapped end: a declaration of
  \<open>0xffffe000\<close> bytes at \<open>0x2000\<close> starts inside the code region and ends at \<open>2^32\<close>,
  which is 0 in 32 bits; it passes both checks and the region is added.
\<close>

lemma as_define_region_wraps:
  "spec_norm_base 0x2000 \<le> unat (vaddr ex_code) + unat (memsize ex_code)
   \<and> spec_norm_end 0x2000 0xffffe000 \<ge> unat (vaddr ex_code)
   \<and> spec_norm_end 0x2000 0xffffe000 = 2 ^ 32
   \<and> fst (as_define_region ex_as 0x2000 0xffffe000 1 1 0 ex_kernel) = OK
   \<and> length (region_list (fst (snd (as_define_region ex_as 0x2000 0xffffe000 1 1 0 ex_kernel)))) = 2"
  by (simp add: as_define_region_def Let_def ex_as_def ex_code_def kmalloc_rec_def ex_kernel_def
        spec_norm_base_def spec_norm_end_def PAGE_FRAME_def PAGE_SIZE_def MIPS_KSEG0_def)

subsection \<open>The load-time permission window\<close>

text \<open>
  C9: \<^verbatim>\<open>as_prepare_load\<close> saves the writability of every region in \<open>old_writeable\<close> and
  makes every region writable; \<^verbatim>\<open>as_complete_load\<close> after it gives every region the
  writability it had before.
\<close>

theorem prepare_complete_load_identity:
  "map old_writeable (region_list (snd (as_prepare_load as))) = map writeable (region_list as)
   \<and> map writeable (region_list (snd (as_prepare_load as)))
       = replicate (length (region_list as)) True
   \<and> map writeable (region_list (fst (snd (as_complete_load cp as k))))
       = map old_writeable (region_list as)
   \<and> map writeable (region_list (fst (snd (as_complete_load cp (snd (as_prepare_load as)) k))))
       = map writeable (region_list as)"
  by (simp add: as_complete_load_def as_prepare_load_def comp_def map_replicate_const)

subsection \<open>Faults on resident pages\<close>

text \<open>
  C10: a \<open>READ\<close> or \<open>WRITE\<close> fault on a page whose entry is not the sentinel returns 0 and
  inserts the pair of the page-aligned faulting address and the stored entry into the
  TLB, changing nothing else; the result is the same whatever the region list \<open>rs\<close> of
  the address space is.
\<close>

theorem vm_fault_resident:
  assumes "faulttype = VM_FAULT_READ \<or> faulttype = VM_FAULT_WRITE"
    and "tab_read (pagetable as) (unat (pt1_bits a)) k \<noteq> 0"
    and "tab_read (tab_read (pagetable as) (unat (pt1_bits a)) k) (unat (pt2_bits a)) k \<noteq> 0"
  shows "vm_fault (Some (Some (as\<lparr>region_list := rs\<rparr>))) faulttype a k =
         (OK, k\<lparr>tlb := (a AND PAGE_FRAME,
                         tab_read (tab_read (pagetable as) (unat (pt1_bits a)) k)
                           (unat (pt2_bits a)) k) # tlb k\<rparr>)"
  using assms
  by (auto simp: vm_fault_def vm_fault_as_def proc_getas_def Let_def load_tlb_def
        VM_FAULT_READ_def VM_FAULT_WRITE_def VM_FAULT_READONLY_def)

text \<open>Witness: a \<open>WRITE\<close> fault at \<open>0x1000\<close>, resident and mapped read-only, with an empty
  region list.\<close>

theorem vm_fault_resident_witness:
  "vm_fault (Some (Some (ex_as\<lparr>region_list := []\<rparr>))) VM_FAULT_WRITE 0x1000 ex_resident =
     (OK, ex_resident\<lparr>tlb := [(0x1000, 0x30200)]\<rparr>)"
proof -
  have i: "unat (pt1_bits 0x1000) = 512" "unat (pt2_bits 0x1000) = 1"
    by (simp_all add: pt1_bits_def pt2_bits_def KVADDR_TO_PADDR_def MIPS_KSEG0_def)
  have t: "tlb ex_resident = []" by (simp add: ex_resident_def)
  show ?thesis
    using vm_fault_resident [of VM_FAULT_WRITE ex_as "0x1000" ex_resident "[]"]
    by (simp add: i t tab_read_def ex_tabs_def ex_as_def PAGE_FRAME_def)
       (simp add: ex_resident_def ex_tabs_def)
qed

subsection \<open>Faults on pages that are not mapped yet\<close>

text \<open>The two zeroing loops (\<^verbatim>\<open>as_create\<close>, \<^verbatim>\<open>vm_add_l1_entry\<close>) in closed form.\<close>

lemma zero_loop:
  "fold (\<lambda>i. tab_write pt i 0) [0..<n] k =
     k\<lparr>tabs := (tabs k)(pt := (\<lambda>i. if i < n then 0 else tabs k pt i))\<rparr>"
proof (induction n)
  case 0
  show ?case by simp
next
  case (Suc n)
  have "fold (\<lambda>i. tab_write pt i 0) [0..<Suc n] k =
        tab_write pt n 0 (fold (\<lambda>i. tab_write pt i 0) [0..<n] k)"
    by simp
  also have "\<dots> = tab_write pt n 0 (k\<lparr>tabs := (tabs k)(pt := (\<lambda>i. if i < n then 0 else tabs k pt i))\<rparr>)"
    by (simp only: Suc)
  also have "\<dots> = k\<lparr>tabs := (tabs k)(pt := (\<lambda>i. if i < Suc n then 0 else tabs k pt i))\<rparr>"
    by (simp add: tab_write_def fun_eq_iff)
  finally show ?case .
qed

lemma zero_loop_reread:
  assumes "tab_read pt i1 k \<noteq> pt"
  shows "fold (\<lambda>i s. tab_write (tab_read pt i1 s) i 0 s) [0..<n] k =
     k\<lparr>tabs := (tabs k)(tab_read pt i1 k := (\<lambda>i. if i < n then 0 else tabs k (tab_read pt i1 k) i))\<rparr>"
proof (induction n)
  case 0
  show ?case by simp
next
  case (Suc n)
  let ?f = "\<lambda>i s. tab_write (tab_read pt i1 s) i 0 s"
  let ?p = "tab_read pt i1 k"
  have "fold ?f [0..<Suc n] k = ?f n (fold ?f [0..<n] k)"
    by simp
  also have "\<dots> = ?f n (k\<lparr>tabs := (tabs k)(?p := (\<lambda>i. if i < n then 0 else tabs k ?p i))\<rparr>)"
    by (simp only: Suc)
  also have "\<dots> = k\<lparr>tabs := (tabs k)(?p := (\<lambda>i. if i < Suc n then 0 else tabs k ?p i))\<rparr>"
    using assms by (simp add: tab_write_def tab_read_def fun_eq_iff)
  finally show ?case .
qed

lemma vm_add_l1_entry_ok:
  assumes "free_blocks k = p # bs" "p \<noteq> 0" "p \<noteq> pt"
  shows "vm_add_l1_entry pt i1 k =
     (OK, k\<lparr>free_blocks := bs, used_blocks := p # used_blocks k,
            tabs := (tabs k)(pt := (tabs k pt)(i1 := p),
                             p := (\<lambda>i. if i < PT_SIZE then 0 else tabs k p i))\<rparr>)"
proof -
  let ?k2 = "tab_write pt i1 p (k\<lparr>free_blocks := bs, used_blocks := p # used_blocks k\<rparr>)"
  have r: "tab_read pt i1 ?k2 = p" by (simp add: tab_read_def tab_write_def)
  have "vm_add_l1_entry pt i1 k =
          (OK, fold (\<lambda>i s. tab_write (tab_read pt i1 s) i 0 s) [0..<PT_SIZE] ?k2)"
    using assms r by (simp add: vm_add_l1_entry_def kmalloc_table_def Let_def)
  also have "fold (\<lambda>i s. tab_write (tab_read pt i1 s) i 0 s) [0..<PT_SIZE] ?k2 =
         ?k2\<lparr>tabs := (tabs ?k2)(p := (\<lambda>i. if i < PT_SIZE then 0 else tabs ?k2 p i))\<rparr>"
    using zero_loop_reread [of pt i1 ?k2 PT_SIZE] assms unfolding r by simp
  also have "\<dots> = k\<lparr>free_blocks := bs, used_blocks := p # used_blocks k,
            tabs := (tabs k)(pt := (tabs k pt)(i1 := p),
                             p := (\<lambda>i. if i < PT_SIZE then 0 else tabs k p i))\<rparr>"
    using assms by (simp add: tab_write_def fun_eq_iff)
  finally show ?thesis .
qed

lemma vm_add_l2_entry_ok:
  assumes "free_pages k = v # ps" "v \<noteq> 0"
  shows "vm_add_l2_entry pt i1 i2 d k =
     (OK, k\<lparr>free_pages := ps, used_pages := v # used_pages k,
            frames := (frames k)(v := (\<lambda>off. if off < unat PAGE_SIZE then 0 else frames k v off)),
            tabs := (tabs k)(tabs k pt i1 := (tabs k (tabs k pt i1))
                       (i2 := (KVADDR_TO_PADDR v AND PAGE_FRAME) OR d OR TLBLO_VALID))\<rparr>)"
  using assms
  by (simp add: vm_add_l2_entry_def alloc_kpages_def bzero_def tab_write_def tab_read_def Let_def
        cong: if_cong)

lemma vm_fault_as_absent:
  assumes l1: "tab_read (pagetable as) (unat (pt1_bits a)) k = 0"
    and blk: "free_blocks k = p # bs" "p \<noteq> 0" "p \<noteq> pagetable as"
    and pg: "free_pages k = v # ps" "v \<noteq> 0"
    and reg: "find_region a (region_list as) = Some r"
  shows "fst (vm_fault_as as a k) = OK
     \<and> tab_read (pagetable as) (unat (pt1_bits a)) (snd (vm_fault_as as a k)) \<noteq> 0
     \<and> tab_read (tab_read (pagetable as) (unat (pt1_bits a)) (snd (vm_fault_as as a k)))
          (unat (pt2_bits a)) (snd (vm_fault_as as a k))
        = (KVADDR_TO_PADDR v AND PAGE_FRAME) OR (if writeable r then TLBLO_DIRTY else 0) OR TLBLO_VALID
     \<and> used_pages (snd (vm_fault_as as a k)) = v # used_pages k
     \<and> tlb (snd (vm_fault_as as a k)) =
         (a AND PAGE_FRAME,
          (KVADDR_TO_PADDR v AND PAGE_FRAME) OR (if writeable r then TLBLO_DIRTY else 0) OR TLBLO_VALID)
         # tlb k"
proof -
  let ?pt = "pagetable as"
  let ?i1 = "unat (pt1_bits a)"
  let ?i2 = "unat (pt2_bits a)"
  let ?d = "if writeable r then TLBLO_DIRTY else 0"
  let ?k1 = "k\<lparr>free_blocks := bs, used_blocks := p # used_blocks k,
            tabs := (tabs k)(?pt := (tabs k ?pt)(?i1 := p),
                             p := (\<lambda>i. if i < PT_SIZE then 0 else tabs k p i))\<rparr>"
  have a1: "vm_add_l1_entry ?pt ?i1 k = (OK, ?k1)"
    using blk by (rule vm_add_l1_entry_ok)
  have i2: "?i2 < PT_SIZE" using pt_bits_in_range [of a] by simp
  have slot: "tab_read ?pt ?i1 ?k1 = p"
    using blk by (simp add: tab_read_def)
  have e0: "tab_read p ?i2 ?k1 = 0"
    using i2 by (simp add: tab_read_def)
  have a2: "vm_add_l2_entry ?pt ?i1 ?i2 ?d ?k1 =
     (OK, ?k1\<lparr>free_pages := ps, used_pages := v # used_pages ?k1,
            frames := (frames ?k1)(v := (\<lambda>off. if off < unat PAGE_SIZE then 0 else frames ?k1 v off)),
            tabs := (tabs ?k1)(tabs ?k1 ?pt ?i1 := (tabs ?k1 (tabs ?k1 ?pt ?i1))
                       (?i2 := (KVADDR_TO_PADDR v AND PAGE_FRAME) OR ?d OR TLBLO_VALID))\<rparr>)"
    using pg by (intro vm_add_l2_entry_ok) simp_all
  show ?thesis
    unfolding vm_fault_as_def Let_def
    using l1 reg blk i2
    by (simp add: a1 slot e0 a2 tab_read_def load_tlb_def del: fun_upd_apply)
       (simp add: tab_read_def)
qed

lemma vm_fault_as_present:
  assumes l1: "tab_read (pagetable as) (unat (pt1_bits a)) k \<noteq> 0"
    and na: "tab_read (pagetable as) (unat (pt1_bits a)) k \<noteq> pagetable as"
    and l2: "tab_read (tab_read (pagetable as) (unat (pt1_bits a)) k) (unat (pt2_bits a)) k = 0"
    and pg: "free_pages k = v # ps" "v \<noteq> 0"
    and reg: "find_region a (region_list as) = Some r"
  shows "fst (vm_fault_as as a k) = OK
     \<and> tab_read (pagetable as) (unat (pt1_bits a)) (snd (vm_fault_as as a k)) \<noteq> 0
     \<and> tab_read (tab_read (pagetable as) (unat (pt1_bits a)) (snd (vm_fault_as as a k)))
          (unat (pt2_bits a)) (snd (vm_fault_as as a k))
        = (KVADDR_TO_PADDR v AND PAGE_FRAME) OR (if writeable r then TLBLO_DIRTY else 0) OR TLBLO_VALID
     \<and> used_pages (snd (vm_fault_as as a k)) = v # used_pages k
     \<and> tlb (snd (vm_fault_as as a k)) =
         (a AND PAGE_FRAME,
          (KVADDR_TO_PADDR v AND PAGE_FRAME) OR (if writeable r then TLBLO_DIRTY else 0) OR TLBLO_VALID)
         # tlb k"
proof -
  let ?pt = "pagetable as"
  let ?i1 = "unat (pt1_bits a)"
  let ?i2 = "unat (pt2_bits a)"
  let ?d = "if writeable r then TLBLO_DIRTY else 0"
  have a2: "vm_add_l2_entry ?pt ?i1 ?i2 ?d k =
     (OK, k\<lparr>free_pages := ps, used_pages := v # used_pages k,
            frames := (frames k)(v := (\<lambda>off. if off < unat PAGE_SIZE then 0 else frames k v off)),
            tabs := (tabs k)(tabs k ?pt ?i1 := (tabs k (tabs k ?pt ?i1))
                       (?i2 := (KVADDR_TO_PADDR v AND PAGE_FRAME) OR ?d OR TLBLO_VALID))\<rparr>)"
    using pg by (rule vm_add_l2_entry_ok)
  show ?thesis
    unfolding vm_fault_as_def Let_def
    using l1 l2 na reg
    by (simp add: a2 tab_read_def load_tlb_def)
qed

lemma vm_fault_as_resident:
  assumes "tab_read (pagetable as) (unat (pt1_bits a)) k \<noteq> 0"
    and "tab_read (tab_read (pagetable as) (unat (pt1_bits a)) k) (unat (pt2_bits a)) k \<noteq> 0"
  shows "vm_fault_as as a k =
         (OK, load_tlb (a AND PAGE_FRAME)
                (tab_read (tab_read (pagetable as) (unat (pt1_bits a)) k) (unat (pt2_bits a)) k) k)"
  using assms by (simp add: vm_fault_as_def Let_def)

lemma vm_fault_rw:
  "vm_fault (Some (Some as)) VM_FAULT_WRITE a k = vm_fault_as as a k"
  "vm_fault (Some (Some as)) VM_FAULT_READ a k = vm_fault_as as a k"
  by (simp_all add: vm_fault_def proc_getas_def
        VM_FAULT_READ_def VM_FAULT_WRITE_def VM_FAULT_READONLY_def)

lemma find_region_map:
  assumes "\<And>c. vaddr (f c) = vaddr c \<and> memsize (f c) = memsize c"
  shows "find_region a (map f rs) = map_option f (find_region a rs)"
  by (induction rs) (simp_all add: assms)

lemma vm_fault_as_unmapped:
  assumes unm: "tab_read (pagetable as) (unat (pt1_bits a)) k = 0
        \<or> tab_read (tab_read (pagetable as) (unat (pt1_bits a)) k) (unat (pt2_bits a)) k = 0"
    and na: "tab_read (pagetable as) (unat (pt1_bits a)) k \<noteq> pagetable as"
    and blk: "tab_read (pagetable as) (unat (pt1_bits a)) k = 0 \<longrightarrow>
          (\<exists>p bs. free_blocks k = p # bs \<and> p \<noteq> 0 \<and> p \<noteq> pagetable as)"
    and pg: "free_pages k = v # ps" "v \<noteq> 0"
    and reg: "find_region a (region_list as) = Some r"
  shows "fst (vm_fault_as as a k) = OK
     \<and> tab_read (pagetable as) (unat (pt1_bits a)) (snd (vm_fault_as as a k)) \<noteq> 0
     \<and> tab_read (tab_read (pagetable as) (unat (pt1_bits a)) (snd (vm_fault_as as a k)))
          (unat (pt2_bits a)) (snd (vm_fault_as as a k))
        = (KVADDR_TO_PADDR v AND PAGE_FRAME) OR (if writeable r then TLBLO_DIRTY else 0) OR TLBLO_VALID
     \<and> used_pages (snd (vm_fault_as as a k)) = v # used_pages k
     \<and> tlb (snd (vm_fault_as as a k)) =
         (a AND PAGE_FRAME,
          (KVADDR_TO_PADDR v AND PAGE_FRAME) OR (if writeable r then TLBLO_DIRTY else 0) OR TLBLO_VALID)
         # tlb k"
proof (cases "tab_read (pagetable as) (unat (pt1_bits a)) k = 0")
  case True
  with blk obtain p bs where "free_blocks k = p # bs" "p \<noteq> 0" "p \<noteq> pagetable as"
    by blast
  with True show ?thesis using pg reg by (rule vm_fault_as_absent)
next
  case False
  with unm have "tab_read (tab_read (pagetable as) (unat (pt1_bits a)) k) (unat (pt2_bits a)) k = 0"
    by simp
  with False na show ?thesis using pg reg by (rule vm_fault_as_present)
qed

lemma tabs_as_activate: "tabs (as_activate cp k) = tabs k"
  by (simp add: as_activate_def split: option.split)

text \<open>
  C1, as the code has it. The handler never looks at the fault type once it is \<open>READ\<close> or
  \<open>WRITE\<close>: a \<open>WRITE\<close> fault at an address that is not mapped yet and lies in a region
  that is not writable returns 0 when a frame (and, if the first-level slot is absent, a
  second-level array) can be allocated; it takes the frame and installs an entry that is
  valid with the dirty bit clear, a read-only mapping. The refusal comes from the
  \<open>READONLY\<close> fault that a later store to that page raises: it returns \<open>EFAULT\<close>, the
  code of every other fault, and leaves the kernel memory as it is.
\<close>

theorem write_fault_readonly_region:
  assumes "find_region a (region_list as) = Some r" and "\<not> writeable r"
    and "tab_read (pagetable as) (unat (pt1_bits a)) k = 0
        \<or> tab_read (tab_read (pagetable as) (unat (pt1_bits a)) k) (unat (pt2_bits a)) k = 0"
    and "tab_read (pagetable as) (unat (pt1_bits a)) k \<noteq> pagetable as"
    and "tab_read (pagetable as) (unat (pt1_bits a)) k = 0 \<longrightarrow>
          (\<exists>p bs. free_blocks k = p # bs \<and> p \<noteq> 0 \<and> p \<noteq> pagetable as)"
    and "free_pages k = v # ps" and "v \<noteq> 0"
  shows "fst (vm_fault (Some (Some as)) VM_FAULT_WRITE a k) = OK
     \<and> tab_read (tab_read (pagetable as) (unat (pt1_bits a))
                   (snd (vm_fault (Some (Some as)) VM_FAULT_WRITE a k)))
          (unat (pt2_bits a)) (snd (vm_fault (Some (Some as)) VM_FAULT_WRITE a k))
        = (KVADDR_TO_PADDR v AND PAGE_FRAME) OR TLBLO_VALID
     \<and> ((KVADDR_TO_PADDR v AND PAGE_FRAME) OR TLBLO_VALID) AND TLBLO_DIRTY = 0
     \<and> (KVADDR_TO_PADDR v AND PAGE_FRAME) OR TLBLO_VALID \<noteq> 0
     \<and> used_pages (snd (vm_fault (Some (Some as)) VM_FAULT_WRITE a k)) = v # used_pages k
     \<and> vm_fault (Some (Some as)) VM_FAULT_READONLY a k = (EFAULT, k)"
proof -
  have ro: "vm_fault (Some (Some as)) VM_FAULT_READONLY a k = (EFAULT, k)"
    by (simp add: vm_fault_def)
  have nz: "(KVADDR_TO_PADDR v AND PAGE_FRAME) OR TLBLO_VALID \<noteq> 0"
    using entry_nonzero [of "KVADDR_TO_PADDR v" 0] by simp
  show ?thesis
    using vm_fault_as_unmapped [OF assms(3) assms(4) assms(5) assms(6) assms(7) assms(1)]
      assms(2)
    by (simp add: vm_fault_rw entry_clean ro nz)
qed

text \<open>Witness: the first \<open>WRITE\<close> fault at \<open>0x1000\<close> in the code region.\<close>

theorem write_fault_readonly_region_witness:
  "fst (vm_fault (Some (Some ex_as)) VM_FAULT_WRITE 0x1000 ex_kernel) = OK
   \<and> tab_read (tab_read (pagetable ex_as) 512
                 (snd (vm_fault (Some (Some ex_as)) VM_FAULT_WRITE 0x1000 ex_kernel)))
          1 (snd (vm_fault (Some (Some ex_as)) VM_FAULT_WRITE 0x1000 ex_kernel)) = 0x30200
   \<and> used_pages (snd (vm_fault (Some (Some ex_as)) VM_FAULT_WRITE 0x1000 ex_kernel))
       = [0x80030000, 0x80010000]"
proof -
  have i: "unat (pt1_bits 0x1000) = 512" "unat (pt2_bits 0x1000) = 1"
    by (simp_all add: pt1_bits_def pt2_bits_def KVADDR_TO_PADDR_def MIPS_KSEG0_def)
  have r: "find_region 0x1000 (region_list ex_as) = Some ex_code" "\<not> writeable ex_code"
    by (simp_all add: ex_as_def ex_code_def)
  have e: "(KVADDR_TO_PADDR 0x80030000 AND PAGE_FRAME) OR TLBLO_VALID = 0x30200"
    by (simp add: KVADDR_TO_PADDR_def MIPS_KSEG0_def PAGE_FRAME_def TLBLO_VALID_def)
  show ?thesis
    using write_fault_readonly_region [of "0x1000" ex_as ex_code ex_kernel "0x80030000" "[]"] r
    by (simp add: i e tab_read_def ex_kernel_def ex_as_def)
qed

text \<open>
  C1 as stated fails: \<open>0x1000\<close> lies in the code region, which is not writable, and is not
  mapped; the \<open>WRITE\<close> fault returns 0, takes the frame at \<open>0x80030000\<close> out of the frame
  provider and stores an entry for it.
\<close>

theorem write_fault_readonly_region_counterexample:
  "find_region 0x1000 (region_list ex_as) = Some ex_code
   \<and> \<not> writeable ex_code
   \<and> tab_read (pagetable ex_as) (unat (pt1_bits 0x1000)) ex_kernel = 0
   \<and> fst (vm_fault (Some (Some ex_as)) VM_FAULT_WRITE 0x1000 ex_kernel) \<noteq> EFAULT
   \<and> used_pages (snd (vm_fault (Some (Some ex_as)) VM_FAULT_WRITE 0x1000 ex_kernel))
       \<noteq> used_pages ex_kernel
   \<and> tab_read (pagetable ex_as) (unat (pt1_bits 0x1000))
         (snd (vm_fault (Some (Some ex_as)) VM_FAULT_WRITE 0x1000 ex_kernel)) \<noteq> 0"
proof -
  have i: "unat (pt1_bits 0x1000) = 512"
    by (simp add: pt1_bits_def KVADDR_TO_PADDR_def MIPS_KSEG0_def)
  have r: "find_region 0x1000 (region_list ex_as) = Some ex_code" "\<not> writeable ex_code"
    by (simp_all add: ex_as_def ex_code_def)
  have h: "tab_read (pagetable ex_as) (unat (pt1_bits 0x1000)) ex_kernel = 0"
      "free_blocks ex_kernel = [0x80020000]" "(0x80020000 :: 32 word) \<noteq> 0"
      "0x80020000 \<noteq> pagetable ex_as"
      "free_pages ex_kernel = [0x80030000]" "(0x80030000 :: 32 word) \<noteq> 0"
    by (simp_all add: i tab_read_def ex_kernel_def ex_as_def)
  show ?thesis
    using vm_fault_as_absent [OF h r(1)] r h(1)
    by (simp add: vm_fault_rw)
qed

subsection \<open>Faults around the load-time window\<close>

text \<open>
  C7, as the code has it. After \<^verbatim>\<open>as_prepare_load\<close> a \<open>WRITE\<close> fault at an address of a
  read-only region that is not mapped yet returns 0 (when the allocations succeed) and
  installs an entry with the dirty bit set; \<^verbatim>\<open>as_complete_load\<close> then gives the region
  its permission back; a later \<open>WRITE\<close> fault at the same address still returns 0, as the
  page is resident and the handler does not look at permissions.
\<close>

theorem load_window_write_fault:
  assumes reg: "find_region a (region_list as) = Some r" and ro: "\<not> writeable r"
    and unm: "tab_read (pagetable as) (unat (pt1_bits a)) k = 0
        \<or> tab_read (tab_read (pagetable as) (unat (pt1_bits a)) k) (unat (pt2_bits a)) k = 0"
    and na: "tab_read (pagetable as) (unat (pt1_bits a)) k \<noteq> pagetable as"
    and blk: "tab_read (pagetable as) (unat (pt1_bits a)) k = 0 \<longrightarrow>
          (\<exists>p bs. free_blocks k = p # bs \<and> p \<noteq> 0 \<and> p \<noteq> pagetable as)"
    and pg: "free_pages k = v # ps" "v \<noteq> 0"
  shows "let as1 = snd (as_prepare_load as);
             res1 = vm_fault (Some (Some as1)) VM_FAULT_WRITE a k;
             k1 = snd res1;
             res2 = as_complete_load cp as1 k1;
             as2 = fst (snd res2);
             k2 = snd (snd res2)
         in fst res1 = OK
          \<and> tab_read (tab_read (pagetable as) (unat (pt1_bits a)) k1) (unat (pt2_bits a)) k1
               AND TLBLO_DIRTY = TLBLO_DIRTY
          \<and> map_option writeable (find_region a (region_list as2)) = Some False
          \<and> map writeable (region_list as2) = map writeable (region_list as)
          \<and> fst (vm_fault (Some (Some as2)) VM_FAULT_WRITE a k2) = OK"
proof -
  let ?f1 = "\<lambda>c. c\<lparr>old_writeable := writeable c, writeable := True\<rparr>"
  let ?f2 = "\<lambda>c. c\<lparr>writeable := old_writeable c\<rparr>"
  let ?as1 = "as\<lparr>region_list := map ?f1 (region_list as)\<rparr>"
  let ?k1 = "snd (vm_fault_as ?as1 a k)"
  let ?as2 = "?as1\<lparr>region_list := map ?f2 (region_list ?as1)\<rparr>"
  let ?k2 = "as_activate cp ?k1"
  let ?e = "(KVADDR_TO_PADDR v AND PAGE_FRAME) OR TLBLO_DIRTY OR TLBLO_VALID"
  have p1: "snd (as_prepare_load as) = ?as1"
    by (simp add: as_prepare_load_def)
  have p2: "as_complete_load cp ?as1 k1 = (OK, ?as2, as_activate cp k1)" for k1
    by (simp add: as_complete_load_def)
  have reg1: "find_region a (region_list ?as1) = Some (?f1 r)"
    using reg by (simp add: find_region_map)
  have reg2: "find_region a (region_list ?as2) = Some (?f2 (?f1 r))"
    using reg by (simp add: find_region_map)
  have f1: "fst (vm_fault_as ?as1 a k) = OK
     \<and> tab_read (pagetable as) (unat (pt1_bits a)) ?k1 \<noteq> 0
     \<and> tab_read (tab_read (pagetable as) (unat (pt1_bits a)) ?k1) (unat (pt2_bits a)) ?k1 = ?e"
    using vm_fault_as_unmapped [of ?as1 a k v ps "?f1 r"] unm na blk pg reg1
    by simp
  have nz: "?e \<noteq> 0" by (rule entry_nonzero)
  have f2: "fst (vm_fault_as ?as2 a ?k2) = OK"
    using f1 nz by (subst vm_fault_as_resident) (simp_all add: tab_read_def tabs_as_activate)
  have w: "map writeable (region_list ?as2) = map writeable (region_list as)"
    by (simp add: comp_def)
  show ?thesis
    unfolding Let_def p1 p2 vm_fault_rw
    using f1 f2 w reg2 ro
    by (simp add: entry_dirty)
qed

text \<open>Witness: the window around a \<open>WRITE\<close> fault at \<open>0x1000\<close> in the code region.\<close>

theorem load_window_write_fault_witness:
  "fst (vm_fault (Some (Some (snd (as_prepare_load ex_as)))) VM_FAULT_WRITE 0x1000 ex_kernel) = OK
   \<and> writeable ex_code = False
   \<and> fst (vm_fault
            (Some (Some (fst (snd (as_complete_load None (snd (as_prepare_load ex_as))
               (snd (vm_fault (Some (Some (snd (as_prepare_load ex_as)))) VM_FAULT_WRITE 0x1000 ex_kernel)))))))
            VM_FAULT_WRITE 0x1000
            (snd (snd (as_complete_load None (snd (as_prepare_load ex_as))
               (snd (vm_fault (Some (Some (snd (as_prepare_load ex_as)))) VM_FAULT_WRITE 0x1000 ex_kernel)))))) = OK"
proof -
  have i: "unat (pt1_bits 0x1000) = 512" "unat (pt2_bits 0x1000) = 1"
    by (simp_all add: pt1_bits_def pt2_bits_def KVADDR_TO_PADDR_def MIPS_KSEG0_def)
  have r: "find_region 0x1000 (region_list ex_as) = Some ex_code" "\<not> writeable ex_code"
    by (simp_all add: ex_as_def ex_code_def)
  have h: "tab_read (pagetable ex_as) (unat (pt1_bits 0x1000)) ex_kernel = 0"
      "tab_read (pagetable ex_as) (unat (pt1_bits 0x1000)) ex_kernel \<noteq> pagetable ex_as"
      "\<exists>p bs. free_blocks ex_kernel = p # bs \<and> p \<noteq> 0 \<and> p \<noteq> pagetable ex_as"
      "free_pages ex_kernel = [0x80030000]" "(0x80030000 :: 32 word) \<noteq> 0"
    by (simp_all add: i tab_read_def ex_kernel_def ex_as_def)
  show ?thesis
    using load_window_write_fault [of "0x1000" ex_as ex_code ex_kernel "0x80030000" "[]" None] r h
    by (simp add: Let_def)
qed

text \<open>
  C7 as stated fails in its last part: after the window is closed and the code region is
  read-only again, the \<open>WRITE\<close> fault at \<open>0x1000\<close> does not return an error.
\<close>

theorem load_window_write_fault_counterexample:
  "map writeable
     (region_list (fst (snd (as_complete_load None (snd (as_prepare_load ex_as))
        (snd (vm_fault (Some (Some (snd (as_prepare_load ex_as)))) VM_FAULT_WRITE 0x1000 ex_kernel))))))
     = [False]
   \<and> fst (vm_fault
            (Some (Some (fst (snd (as_complete_load None (snd (as_prepare_load ex_as))
               (snd (vm_fault (Some (Some (snd (as_prepare_load ex_as)))) VM_FAULT_WRITE 0x1000 ex_kernel)))))))
            VM_FAULT_WRITE 0x1000
            (snd (snd (as_complete_load None (snd (as_prepare_load ex_as))
               (snd (vm_fault (Some (Some (snd (as_prepare_load ex_as)))) VM_FAULT_WRITE 0x1000 ex_kernel))))))
       \<noteq> EFAULT"
proof -
  let ?as1 = "snd (as_prepare_load ex_as)"
  let ?k1 = "snd (vm_fault_as ?as1 0x1000 ex_kernel)"
  have i: "unat (pt1_bits 0x1000) = 512"
    by (simp add: pt1_bits_def KVADDR_TO_PADDR_def MIPS_KSEG0_def)
  have pt: "pagetable ?as1 = pagetable ex_as"
    by (simp add: as_prepare_load_def)
  have r: "find_region 0x1000 (region_list ?as1)
             = Some (ex_code\<lparr>old_writeable := False, writeable := True\<rparr>)"
    by (simp add: as_prepare_load_def ex_as_def ex_code_def)
  have h: "tab_read (pagetable ?as1) (unat (pt1_bits 0x1000)) ex_kernel = 0"
      "free_blocks ex_kernel = [0x80020000]" "(0x80020000 :: 32 word) \<noteq> 0"
      "0x80020000 \<noteq> pagetable ?as1"
      "free_pages ex_kernel = [0x80030000]" "(0x80030000 :: 32 word) \<noteq> 0"
    unfolding pt by (simp_all add: i tab_read_def ex_kernel_def ex_as_def)
  have f1: "tab_read (pagetable ex_as) (unat (pt1_bits 0x1000)) ?k1 \<noteq> 0
      \<and> tab_read (tab_read (pagetable ex_as) (unat (pt1_bits 0x1000)) ?k1)
           (unat (pt2_bits 0x1000)) ?k1 \<noteq> 0"
    using vm_fault_as_absent [OF h r] entry_nonzero [of "KVADDR_TO_PADDR 0x80030000" TLBLO_DIRTY]
    by (simp add: pt)
  have c: "as_complete_load None ?as1 ?k1 =
       (OK, ?as1\<lparr>region_list := map (\<lambda>c. c\<lparr>writeable := old_writeable c\<rparr>) (region_list ?as1)\<rparr>, ?k1)"
    by (simp add: as_complete_load_def as_activate_def proc_getas_def)
  have w: "map writeable (map (\<lambda>c. c\<lparr>writeable := old_writeable c\<rparr>) (region_list ?as1)) = [False]"
    by (simp add: as_prepare_load_def ex_as_def ex_code_def)
  show ?thesis
    unfolding vm_fault_rw c
    using f1 w
    by (simp add: vm_fault_as_resident pt)
qed

subsection \<open>The rollback of a fault outside every region\<close>

text \<open>
  A fault in a range whose first-level slot is absent, at an address outside every region:
  the handler returns \<open>EFAULT\<close> and gives the new second-level array back to the heap,
  and the first-level slot keeps the pointer to it.
\<close>

lemma vm_fault_as_no_region:
  assumes l1: "tab_read (pagetable as) (unat (pt1_bits a)) k = 0"
    and blk: "free_blocks k = p # bs" "p \<noteq> 0" "p \<noteq> pagetable as" "p \<notin> set (used_blocks k)"
    and reg: "find_region a (region_list as) = None"
  shows "fst (vm_fault_as as a k) = EFAULT
     \<and> tab_read (pagetable as) (unat (pt1_bits a)) (snd (vm_fault_as as a k)) = p
     \<and> free_blocks (snd (vm_fault_as as a k)) = free_blocks k
     \<and> used_blocks (snd (vm_fault_as as a k)) = used_blocks k"
proof -
  let ?pt = "pagetable as"
  let ?i1 = "unat (pt1_bits a)"
  let ?i2 = "unat (pt2_bits a)"
  let ?k1 = "k\<lparr>free_blocks := bs, used_blocks := p # used_blocks k,
            tabs := (tabs k)(?pt := (tabs k ?pt)(?i1 := p),
                             p := (\<lambda>i. if i < PT_SIZE then 0 else tabs k p i))\<rparr>"
  have a1: "vm_add_l1_entry ?pt ?i1 k = (OK, ?k1)"
    using blk(1-3) by (rule vm_add_l1_entry_ok)
  have i2: "?i2 < PT_SIZE" using pt_bits_in_range [of a] by simp
  have slot: "tab_read ?pt ?i1 ?k1 = p"
    using blk by (simp add: tab_read_def)
  have e0: "tab_read p ?i2 ?k1 = 0"
    using i2 by (simp add: tab_read_def)
  show ?thesis
    unfolding vm_fault_as_def Let_def
    using l1 reg blk
    by (simp add: a1 slot e0 kfree_def) (simp add: tab_read_def)
qed

text \<open>
  C3, on the code: a \<open>READ\<close> fault at \<open>0x5000\<close>, outside the only region, finds the
  first-level slot 512 absent, allocates the second-level array at \<open>0x80020000\<close>, finds
  no region and returns \<open>EFAULT\<close>. The array goes back to the heap, but the slot is not
  reset: it still holds \<open>0x80020000\<close>, so the page table is not the one before the call.
\<close>

theorem vm_fault_rollback_dangling:
  "find_region 0x5000 (region_list ex_as) = None
   \<and> tab_read (pagetable ex_as) (unat (pt1_bits 0x5000)) ex_kernel = 0
   \<and> fst (vm_fault (Some (Some ex_as)) VM_FAULT_READ 0x5000 ex_kernel) = EFAULT
   \<and> tab_read (pagetable ex_as) (unat (pt1_bits 0x5000))
        (snd (vm_fault (Some (Some ex_as)) VM_FAULT_READ 0x5000 ex_kernel)) = 0x80020000
   \<and> used_blocks (snd (vm_fault (Some (Some ex_as)) VM_FAULT_READ 0x5000 ex_kernel)) = []
   \<and> free_blocks (snd (vm_fault (Some (Some ex_as)) VM_FAULT_READ 0x5000 ex_kernel)) = [0x80020000]"
proof -
  have i: "unat (pt1_bits 0x5000) = 512" "unat (pt2_bits 0x5000) = 5"
    by (simp_all add: pt1_bits_def pt2_bits_def KVADDR_TO_PADDR_def MIPS_KSEG0_def)
  have r: "find_region 0x5000 (region_list ex_as) = None"
    by (simp add: ex_as_def ex_code_def)
  have pt: "pagetable ex_as = 0x80010000" by (simp add: ex_as_def)
  have a1: "vm_add_l1_entry 0x80010000 512 ex_kernel =
     (OK, ex_kernel\<lparr>free_blocks := [], used_blocks := 0x80020000 # used_blocks ex_kernel,
            tabs := (tabs ex_kernel)(0x80010000 := (tabs ex_kernel 0x80010000)(512 := 0x80020000),
                             0x80020000 := (\<lambda>i. if i < PT_SIZE then 0 else tabs ex_kernel 0x80020000 i))\<rparr>)"
    by (rule vm_add_l1_entry_ok) (simp_all add: ex_kernel_def)
  show ?thesis
    unfolding vm_fault_rw vm_fault_as_def Let_def i pt r
    by (simp add: a1 tab_read_def kfree_def PT_SIZE_def) (simp add: ex_kernel_def)
qed

subsection \<open>Destroying an address space\<close>

text \<open>A loop whose body changes the state at one index only.\<close>

lemma fold_only:
  assumes "distinct xs" "j \<in> set xs"
    and "\<And>i. i \<in> set xs \<Longrightarrow> i \<noteq> j \<Longrightarrow> f i s = s"
    and "\<And>i. i \<in> set xs \<Longrightarrow> i \<noteq> j \<Longrightarrow> f i (f j s) = f j s"
  shows "fold f xs s = f j s"
  using assms
proof (induction xs)
  case Nil
  then show ?case by simp
next
  case (Cons x xs)
  show ?case
  proof (cases "x = j")
    case True
    then have "j \<notin> set xs" using Cons.prems(1) by simp
    then have "fold f xs (f j s) = f j s"
      using Cons.prems(4) by (intro List.fold_invariant [where Q = "\<lambda>i. i \<in> set xs" and P = "\<lambda>t. t = f j s"]) auto
    with True show ?thesis by simp
  next
    case False
    then have "f x s = s" using Cons.prems(3) by simp
    moreover have "fold f xs s = f j s"
      using Cons.prems False by (intro Cons.IH) auto
    ultimately show ?thesis by simp
  qed
qed

lemma ex_resident_l1: "tab_read 0x80010000 i ex_resident = (if i = 512 then 0x80020000 else 0)"
  by (simp add: tab_read_def ex_resident_def ex_tabs_def)

lemma as_destroy_l2_ex:
  "as_destroy_l2 0x80010000 512 ex_resident =
     ex_resident\<lparr>used_pages := [0x80010000], free_pages := [0x80030000]\<rparr>"
proof -
  let ?f = "\<lambda>j s. if tab_read (tab_read 0x80010000 512 s) j s \<noteq> 0
                 then free_kpages (PADDR_TO_KVADDR (tab_read (tab_read 0x80010000 512 s) j s) AND PAGE_FRAME) s
                 else s"
  have one: "?f 1 ex_resident = ex_resident\<lparr>used_pages := [0x80010000], free_pages := [0x80030000]\<rparr>"
    by (simp add: tab_read_def ex_resident_def ex_tabs_def free_kpages_def
          PADDR_TO_KVADDR_def MIPS_KSEG0_def PAGE_FRAME_def)
  have "fold ?f [0..<PAGETABLE_SIZE] ex_resident = ?f 1 ex_resident"
  proof (rule fold_only)
    show "distinct [0..<PAGETABLE_SIZE]" by simp
    show "1 \<in> set [0..<PAGETABLE_SIZE]" by (simp add: PAGETABLE_SIZE_def)
    show "?f i ex_resident = ex_resident" if "i \<noteq> 1" for i
      using that by (simp add: tab_read_def ex_resident_def ex_tabs_def)
    show "?f i (?f 1 ex_resident) = ?f 1 ex_resident" if "i \<noteq> 1" for i
      unfolding one using that by (simp add: tab_read_def ex_resident_def ex_tabs_def)
  qed
  then show ?thesis unfolding as_destroy_l2_def one .
qed

text \<open>
  \<^verbatim>\<open>as_destroy\<close> gives no block back to the heap: whatever second-level arrays the
  address space has are still allocated afterwards.
\<close>

lemma fold_preserves:
  assumes "\<And>x s. P s \<Longrightarrow> P (f x s)" "P s"
  shows "P (fold f xs s)"
  using assms(2) by (induction xs arbitrary: s) (simp_all add: assms(1))

lemma used_blocks_free_kpages: "used_blocks (free_kpages p k) = used_blocks k"
  by (simp add: free_kpages_def)

lemma used_blocks_kfree_rec: "used_blocks (kfree_rec k) = used_blocks k"
  by (simp add: kfree_rec_def)

lemma as_destroy_keeps_blocks:
  assumes "pagetable as \<notin> set (used_blocks k)"
  shows "used_blocks (as_destroy as k) = used_blocks k"
proof -
  let ?P = "\<lambda>s. used_blocks s = used_blocks k"
  have l2: "?P (as_destroy_l2 pt i s)" if "?P s" for pt i s
    unfolding as_destroy_l2_def
    by (rule fold_preserves [where P = ?P]) (simp_all add: used_blocks_free_kpages that)
  let ?k1 = "fold (\<lambda>i s. if tab_read (pagetable as) i s \<noteq> 0
                           then as_destroy_l2 (pagetable as) i s else s)
                    [0..<PAGETABLE_SIZE] k"
  have k1: "?P ?k1"
    by (rule fold_preserves [where P = ?P]) (simp_all add: l2)
  have k2: "?P (kfree (pagetable as) ?k1)"
    using k1 assms by (simp add: kfree_def used_blocks_free_kpages)
  have k3: "?P (fold (\<lambda>tmp s. kfree_rec s) (region_list as) (kfree (pagetable as) ?k1))"
    by (rule fold_preserves [where P = ?P]) (simp_all add: k2 used_blocks_kfree_rec)
  show ?thesis
    unfolding as_destroy_def Let_def used_blocks_kfree_rec by (rule k3)
qed

text \<open>
  C4, on the code: \<^verbatim>\<open>as_destroy\<close> of the address space with one resident page gives the
  frame and the first-level page back to the frame provider and the two records back to
  the heap, but the second-level array at \<open>0x80020000\<close>, which slot 512 points to, is
  still allocated afterwards: nothing in \<^verbatim>\<open>as_destroy\<close> frees \<open>as->pagetable[i]\<close>.
\<close>

theorem as_destroy_leaks_l2:
  "used_pages (as_destroy ex_as ex_resident) = []
   \<and> used_recs (as_destroy ex_as ex_resident) = 0
   \<and> used_blocks (as_destroy ex_as ex_resident) = [0x80020000]
   \<and> tab_read (pagetable ex_as) 512 ex_resident = 0x80020000"
proof -
  let ?g = "\<lambda>i s. if tab_read (pagetable ex_as) i s \<noteq> 0
                           then as_destroy_l2 (pagetable ex_as) i s else s"
  let ?k1 = "ex_resident\<lparr>used_pages := [0x80010000], free_pages := [0x80030000]\<rparr>"
  have pt: "pagetable ex_as = 0x80010000" by (simp add: ex_as_def)
  have one: "?g 512 ex_resident = ?k1"
    unfolding pt by (simp add: ex_resident_l1 as_destroy_l2_ex)
  have "fold ?g [0..<PAGETABLE_SIZE] ex_resident = ?g 512 ex_resident"
  proof (rule fold_only)
    show "distinct [0..<PAGETABLE_SIZE]" by simp
    show "512 \<in> set [0..<PAGETABLE_SIZE]" by (simp add: PAGETABLE_SIZE_def)
    show "?g i ex_resident = ex_resident" if "i \<noteq> 512" for i
      unfolding pt using that by (simp add: ex_resident_l1)
    show "?g i (?g 512 ex_resident) = ?g 512 ex_resident" if "i \<noteq> 512" for i
      unfolding one unfolding pt using that by (simp add: tab_read_def ex_resident_def ex_tabs_def)
  qed
  then have l: "fold ?g [0..<PAGETABLE_SIZE] ex_resident = ?k1"
    unfolding one .
  show ?thesis
    unfolding as_destroy_def Let_def l
    by (simp add: pt kfree_def free_kpages_def kfree_rec_def ex_resident_def ex_as_def tab_read_def ex_tabs_def)
qed

subsection \<open>Duplication when the frame provider runs out\<close>

lemma as_create_ex_low:
  "as_create ex_low =
    (Some \<lparr>region_list = [], pagetable = 0x80040000\<rparr>,
     ex_mid\<lparr>free_recs := 3, used_recs := 3\<rparr>)"
  by (simp add: as_create_def kmalloc_rec_def alloc_kpages_def zero_loop ex_low_def
        ex_resident_def ex_mid_def cong: if_cong)

lemma as_copy_regions_ex_low:
  "as_copy_regions (region_list ex_as) \<lparr>region_list = [], pagetable = 0x80040000\<rparr>
      (ex_mid\<lparr>free_recs := 3, used_recs := 3\<rparr>) = (OK, ex_newas, ex_mid)"
  by (simp add: ex_as_def ex_code_def as_define_region_def Let_def kmalloc_rec_def ex_mid_def ex_newas_def
        PAGE_FRAME_def PAGE_SIZE_def MIPS_KSEG0_def)

lemma vm_copy_l1_skip:
  assumes "\<forall>i \<in> set pre. tab_read old_pt i k = 0"
  shows "vm_copy_l1 old_pt new_pt (pre @ rest) k = vm_copy_l1 old_pt new_pt rest k"
  using assms by (induction pre) simp_all

lemma upt_split:
  assumes "j < n"
  shows "[0..<n] = [0..<j] @ j # [Suc j..<n]"
proof -
  have "[0..<j + (n - j)] = [0..<j] @ [j..<j + (n - j)]"
    by (rule upt_add_eq_append) simp
  moreover have "j + (n - j) = n" using assms by simp
  ultimately have "[0..<n] = [0..<j] @ [j..<n]" by simp
  moreover have "[j..<n] = j # [Suc j..<n]" using assms by (rule upt_conv_Cons)
  ultimately show ?thesis by simp
qed

lemma ex_mid_old: "tab_read 0x80010000 i ex_mid = (if i = 512 then 0x80020000 else 0)"
  by (simp add: tab_read_def ex_mid_def ex_tabs_def)

lemma vm_copy_l2_ex:
  "vm_copy_l2 0x80010000 0x80040000 512 [0..<PT_SIZE]
     (tab_write 0x80040000 512 0x80050000
        (ex_mid\<lparr>free_blocks := [], used_blocks := [0x80050000, 0x80020000]\<rparr>))
   = Some (ENOMEM, ex_half)"
proof -
  have "[0..<PT_SIZE] = 0 # [Suc 0..<PT_SIZE]"
    by (rule upt_conv_Cons) (simp add: PT_SIZE_def)
  moreover have "[Suc 0..<PT_SIZE] = Suc 0 # [Suc (Suc 0)..<PT_SIZE]"
    by (rule upt_conv_Cons) (simp add: PT_SIZE_def)
  ultimately have l: "[0..<PT_SIZE] = 0 # Suc 0 # [Suc (Suc 0)..<PT_SIZE]"
    by simp
  show ?thesis
    unfolding l
    by (simp add: tab_read_def tab_write_def ex_mid_def ex_tabs_def alloc_kpages_def ex_half_def)
qed

lemma vm_copy_pt_ex:
  "vm_copy_pt (pagetable ex_as) (pagetable ex_newas) ex_mid = Some (ENOMEM, ex_half)"
proof -
  have pt: "pagetable ex_as = 0x80010000" "pagetable ex_newas = 0x80040000"
    by (simp_all add: ex_as_def ex_newas_def)
  have l: "[0..<PT_SIZE] = [0..<512] @ 512 # [Suc 512..<PT_SIZE]"
    by (rule upt_split) (simp add: PT_SIZE_def)
  have km: "kmalloc_table ex_mid = (0x80050000, ex_mid\<lparr>free_blocks := [], used_blocks := [0x80050000, 0x80020000]\<rparr>)"
    by (simp add: kmalloc_table_def ex_mid_def)
  have "vm_copy_l1 0x80010000 0x80040000 ([0..<512] @ 512 # [Suc 512..<PT_SIZE]) ex_mid
        = vm_copy_l1 0x80010000 0x80040000 (512 # [Suc 512..<PT_SIZE]) ex_mid"
    by (rule vm_copy_l1_skip) (simp add: ex_mid_old)
  also have "\<dots> = Some (ENOMEM, ex_half)"
    by (simp add: ex_mid_old km vm_copy_l2_ex del: upt_Suc)
  finally show ?thesis
    unfolding vm_copy_pt_def pt by (simp only: l)
qed

text \<open>\<^verbatim>\<open>as_copy\<close> returns 0 whatever \<^verbatim>\<open>vm_copy_pt\<close> returns.\<close>

lemma as_copy_result:
  assumes "as_create k = (Some newas, k1)"
    and "as_copy_regions (region_list old) newas k1 = (OK, newas1, k2)"
    and "vm_copy_pt (pagetable old) (pagetable newas1) k2 = Some (r, k3)"
  shows "as_copy old k = Some (OK, Some newas1, k3)"
  using assms by (simp add: as_copy_def)

lemma as_copy_ex_low: "as_copy ex_as ex_low = Some (OK, Some ex_newas, ex_half)"
  by (simp add: as_copy_def as_create_ex_low as_copy_regions_ex_low vm_copy_pt_ex)

text \<open>
  C2, on the code: in \<open>ex_low\<close> the clone of the page table fails, \<^verbatim>\<open>vm_copy_pt\<close> returns
  \<open>ENOMEM\<close> when no frame is left for the copy of the resident page, and \<^verbatim>\<open>as_copy\<close>
  still returns 0 with the new address space in \<open>*ret\<close>; nothing of it has been
  destroyed (its first-level page, its second-level array and its records are still
  allocated).
\<close>

theorem as_copy_ignores_clone_failure:
  "as_create ex_low
     = (Some \<lparr>region_list = [], pagetable = 0x80040000\<rparr>, ex_mid\<lparr>free_recs := 3, used_recs := 3\<rparr>)
   \<and> as_copy_regions (region_list ex_as) \<lparr>region_list = [], pagetable = 0x80040000\<rparr>
        (ex_mid\<lparr>free_recs := 3, used_recs := 3\<rparr>) = (OK, ex_newas, ex_mid)
   \<and> vm_copy_pt (pagetable ex_as) (pagetable ex_newas) ex_mid = Some (ENOMEM, ex_half)
   \<and> as_copy ex_as ex_low = Some (OK, Some ex_newas, ex_half)
   \<and> used_pages ex_half = [0x80040000, 0x80030000, 0x80010000]
   \<and> used_blocks ex_half = [0x80050000, 0x80020000]
   \<and> used_recs ex_half = 4"
  by (simp add: as_create_ex_low as_copy_regions_ex_low vm_copy_pt_ex as_copy_ex_low)
     (simp add: ex_half_def ex_mid_def)

subsection \<open>What a completed clone establishes\<close>

text \<open>
  When \<^verbatim>\<open>vm_copy_pt\<close> itself returns 0, every resident entry of the source has a
  counterpart at the same indices of the destination: the same dirty bit, another frame,
  and the same bytes in it. The free lists hold distinct addresses, the free pages are
  page-aligned, and neither the two first-level arrays nor the second-level arrays and
  frames of the source are on a free list.
\<close>



lemma tabs_bzero: "tabs (bzero v k) = tabs k"
  by (simp add: bzero_def)

lemma tabs_memmove: "tabs (memmove d s k) = tabs k"
  by (simp add: memmove_def)

lemma vm_copy_l2_tabs:
  assumes "vm_copy_l2 old_pt new_pt i js k = Some (r, k')"
    and "tabs k new_pt i \<noteq> new_pt"
  shows "(\<forall>x. x \<noteq> tabs k new_pt i \<longrightarrow> tabs k' x = tabs k x)
       \<and> (\<forall>j. j \<notin> set js \<longrightarrow> tabs k' (tabs k new_pt i) j = tabs k (tabs k new_pt i) j)
       \<and> free_blocks k' = free_blocks k \<and> used_blocks k' = used_blocks k"
  using assms
proof (induction js arbitrary: k)
  case Nil
  then show ?case by simp
next
  case (Cons j js)
  let ?n = "tabs k new_pt i"
  let ?e = "tabs k (tabs k old_pt i) j"
  show ?case
  proof (cases "?e = 0")
    case True
    let ?k4 = "tab_write ?n j 0 k"
    from Cons.prems True have run: "vm_copy_l2 old_pt new_pt i js ?k4 = Some (r, k')"
      by (simp add: tab_read_def split: if_splits)
    have n4: "tabs ?k4 new_pt i = ?n" using Cons.prems(2) by (simp add: tab_write_def)
    from Cons.IH [OF run] n4 Cons.prems(2)
    show ?thesis by (auto simp: tab_write_def)
  next
    case False
    show ?thesis
    proof (cases "free_pages k")
      case Nil
      with Cons.prems False show ?thesis
        by (auto simp: tab_read_def alloc_kpages_def)
    next
      case (Cons v ps)
      let ?k1 = "k\<lparr>free_pages := ps, used_pages := v # used_pages k\<rparr>"
      let ?k3 = "memmove v (PADDR_TO_KVADDR (tabs k (tabs k old_pt i) j AND PAGE_FRAME)) (bzero v ?k1)"
      let ?k4 = "tab_write ?n j ((KVADDR_TO_PADDR v AND PAGE_FRAME) OR (?e AND TLBLO_DIRTY) OR TLBLO_VALID) ?k3"
      have t3: "tabs ?k3 = tabs k" by (simp add: memmove_def bzero_def)
      show ?thesis
      proof (cases "v = 0")
        case True
        with Cons.prems False Cons show ?thesis
          by (auto simp: tab_read_def alloc_kpages_def)
      next
        case vnz: False
        from Cons.prems(1) False Cons vnz
        have run: "vm_copy_l2 old_pt new_pt i js ?k4 = Some (r, k')"
          by (simp add: tab_read_def alloc_kpages_def Let_def tabs_bzero tabs_memmove
                split: if_splits)
        have n4: "tabs ?k4 new_pt i = ?n" using Cons.prems(2) by (simp add: tab_write_def t3)
        have b4: "free_blocks ?k4 = free_blocks k" "used_blocks ?k4 = used_blocks k"
          by (simp_all add: tab_write_def memmove_def bzero_def)
        from Cons.IH [OF run] n4 Cons.prems(2) b4
        show ?thesis by (auto simp: tab_write_def t3)
      qed
    qed
  qed
qed

lemma vm_copy_l2_copies:
  assumes "vm_copy_l2 old_pt new_pt i js k = Some (OK, k')"
    and "tabs k new_pt i \<noteq> new_pt"
    and "tabs k new_pt i \<noteq> old_pt"
    and "tabs k new_pt i \<noteq> tabs k old_pt i"
    and "distinct js"
    and "distinct (free_pages k)"
  shows "\<exists>taken. free_pages k = taken @ free_pages k'
       \<and> (\<forall>f. f \<notin> set taken \<longrightarrow> frames k' f = frames k f)
       \<and> (\<forall>j \<in> set js. tabs k (tabs k old_pt i) j = 0 \<longrightarrow> tabs k' (tabs k new_pt i) j = 0)
       \<and> (\<forall>j \<in> set js. tabs k (tabs k old_pt i) j \<noteq> 0 \<longrightarrow>
             PADDR_TO_KVADDR (tabs k (tabs k old_pt i) j AND PAGE_FRAME) \<notin> set (free_pages k) \<longrightarrow>
             (\<exists>v \<in> set taken.
                 tabs k' (tabs k new_pt i) j =
                   (KVADDR_TO_PADDR v AND PAGE_FRAME)
                     OR (tabs k (tabs k old_pt i) j AND TLBLO_DIRTY) OR TLBLO_VALID
               \<and> (\<forall>off < unat PAGE_SIZE.
                     frames k' v off =
                     frames k (PADDR_TO_KVADDR (tabs k (tabs k old_pt i) j AND PAGE_FRAME)) off)))"
  using assms
proof (induction js arbitrary: k)
  case Nil
  then show ?case by simp
next
  case (Cons j js)
  let ?n = "tabs k new_pt i"
  let ?o = "tabs k old_pt i"
  let ?e = "tabs k ?o j"
  from Cons.prems(5) have dj: "j \<notin> set js" "distinct js" by simp_all
  show ?case
  proof (cases "?e = 0")
    case True
    let ?k4 = "tab_write ?n j 0 k"
    from Cons.prems(1) True have run: "vm_copy_l2 old_pt new_pt i js ?k4 = Some (OK, k')"
      by (simp add: tab_read_def split: if_splits)
    have n4: "tabs ?k4 new_pt i = ?n" using Cons.prems(2) by (simp add: tab_write_def)
    have o4: "tabs ?k4 old_pt i = ?o" using Cons.prems(3) by (simp add: tab_write_def)
    have s4: "tabs ?k4 ?o = tabs k ?o" using Cons.prems(4) by (simp add: tab_write_def)
    have p4: "free_pages ?k4 = free_pages k" "frames ?k4 = frames k"
      by (simp_all add: tab_write_def)
    have here: "tabs k' ?n j = 0"
      using vm_copy_l2_tabs [OF run] n4 Cons.prems(2) dj(1) by (simp add: tab_write_def)
    from Cons.IH [OF run] n4 o4 s4 p4 Cons.prems dj
    obtain taken where t: "free_pages k = taken @ free_pages k'"
       "\<forall>f. f \<notin> set taken \<longrightarrow> frames k' f = frames k f"
       "\<forall>j \<in> set js. tabs k ?o j = 0 \<longrightarrow> tabs k' ?n j = 0"
       "\<forall>j \<in> set js. tabs k ?o j \<noteq> 0 \<longrightarrow>
             PADDR_TO_KVADDR (tabs k ?o j AND PAGE_FRAME) \<notin> set (free_pages k) \<longrightarrow>
             (\<exists>v \<in> set taken.
                 tabs k' ?n j = (KVADDR_TO_PADDR v AND PAGE_FRAME) OR (tabs k ?o j AND TLBLO_DIRTY) OR TLBLO_VALID
               \<and> (\<forall>off < unat PAGE_SIZE.
                     frames k' v off = frames k (PADDR_TO_KVADDR (tabs k ?o j AND PAGE_FRAME)) off))"
      by auto
    show ?thesis
      using t True here by (intro exI [of _ taken]) auto
  next
    case False
    show ?thesis
    proof (cases "free_pages k")
      case Nil
      with Cons.prems False show ?thesis
        by (simp add: tab_read_def alloc_kpages_def)
    next
      case (Cons v ps)
      let ?src = "PADDR_TO_KVADDR (?e AND PAGE_FRAME)"
      let ?k1 = "k\<lparr>free_pages := ps, used_pages := v # used_pages k\<rparr>"
      let ?k3 = "memmove v ?src (bzero v ?k1)"
      let ?ent = "(KVADDR_TO_PADDR v AND PAGE_FRAME) OR (?e AND TLBLO_DIRTY) OR TLBLO_VALID"
      let ?k4 = "tab_write ?n j ?ent ?k3"
      from Cons.prems(6) Cons have dp: "v \<notin> set ps" "distinct ps" by simp_all
      show ?thesis
      proof (cases "v = 0")
        case True
        with Cons.prems False Cons show ?thesis
          by (simp add: tab_read_def alloc_kpages_def)
      next
        case vnz: False
        from Cons.prems(1) False Cons vnz
        have run: "vm_copy_l2 old_pt new_pt i js ?k4 = Some (OK, k')"
          by (simp add: tab_read_def alloc_kpages_def Let_def tabs_bzero tabs_memmove
                split: if_splits)
        have t3: "tabs ?k3 = tabs k" by (simp add: tabs_bzero tabs_memmove)
        have n4: "tabs ?k4 new_pt i = ?n" using Cons.prems(2) by (simp add: tab_write_def t3)
        have o4: "tabs ?k4 old_pt i = ?o" using Cons.prems(3) by (simp add: tab_write_def t3)
        have s4: "tabs ?k4 ?o = tabs k ?o" using Cons.prems(4) by (simp add: tab_write_def t3)
        have p4: "free_pages ?k4 = ps"
          by (simp add: tab_write_def memmove_def bzero_def)
        have f4: "frames ?k4 f = frames k f" if "f \<noteq> v" for f
          using that by (simp add: tab_write_def memmove_def bzero_def)
        have fv: "frames ?k4 v off = frames k ?src off" if "off < unat PAGE_SIZE" "?src \<noteq> v" for off
          using that by (simp add: tab_write_def memmove_def bzero_def)
        have here: "tabs k' ?n j = ?ent"
          using vm_copy_l2_tabs [OF run] n4 Cons.prems(2) dj(1) by (simp add: tab_write_def t3)
        from Cons.IH [OF run] n4 o4 s4 p4 Cons.prems(2-4) dj dp
        obtain taken where t: "ps = taken @ free_pages k'"
          "\<forall>f. f \<notin> set taken \<longrightarrow> frames k' f = frames ?k4 f"
          "\<forall>j \<in> set js. tabs k ?o j = 0 \<longrightarrow> tabs k' ?n j = 0"
          "\<forall>j \<in> set js. tabs k ?o j \<noteq> 0 \<longrightarrow>
             PADDR_TO_KVADDR (tabs k ?o j AND PAGE_FRAME) \<notin> set ps \<longrightarrow>
             (\<exists>v \<in> set taken.
                 tabs k' ?n j = (KVADDR_TO_PADDR v AND PAGE_FRAME) OR (tabs k ?o j AND TLBLO_DIRTY) OR TLBLO_VALID
               \<and> (\<forall>off < unat PAGE_SIZE.
                     frames k' v off = frames ?k4 (PADDR_TO_KVADDR (tabs k ?o j AND PAGE_FRAME)) off))"
          by auto
        have vt: "v \<notin> set taken" using t(1) dp(1) by auto
        have c1: "free_pages k = (v # taken) @ free_pages k'"
          using Cons t(1) by simp
        have c2: "\<forall>f. f \<notin> set (v # taken) \<longrightarrow> frames k' f = frames k f"
          using t(2) f4 by simp
        have c3: "\<forall>j' \<in> set (j # js). tabs k ?o j' = 0 \<longrightarrow> tabs k' ?n j' = 0"
          using t(3) False by simp
        have c4: "\<exists>w \<in> set (v # taken).
                 tabs k' ?n j' = (KVADDR_TO_PADDR w AND PAGE_FRAME) OR (tabs k ?o j' AND TLBLO_DIRTY) OR TLBLO_VALID
               \<and> (\<forall>off < unat PAGE_SIZE.
                     frames k' w off = frames k (PADDR_TO_KVADDR (tabs k ?o j' AND PAGE_FRAME)) off)"
          if j': "j' \<in> set (j # js)" and nz: "tabs k ?o j' \<noteq> 0"
            and src: "PADDR_TO_KVADDR (tabs k ?o j' AND PAGE_FRAME) \<notin> set (free_pages k)" for j'
        proof (cases "j' = j")
          case True
          have sv: "?src \<noteq> v" using src True Cons by auto
          have "\<forall>off < unat PAGE_SIZE. frames k' v off = frames k ?src off"
            using t(2) vt fv sv by simp
          with here True show ?thesis by auto
        next
          case False
          with j' have in_js: "j' \<in> set js" by simp
          let ?s' = "PADDR_TO_KVADDR (tabs k ?o j' AND PAGE_FRAME)"
          have s1: "?s' \<notin> set ps" "?s' \<noteq> v" using src Cons by auto
          from t(4) in_js nz s1(1)
          obtain w where w: "w \<in> set taken"
            "tabs k' ?n j' = (KVADDR_TO_PADDR w AND PAGE_FRAME) OR (tabs k ?o j' AND TLBLO_DIRTY) OR TLBLO_VALID"
            "\<forall>off < unat PAGE_SIZE. frames k' w off = frames ?k4 ?s' off"
            by blast
          have "\<forall>off < unat PAGE_SIZE. frames k' w off = frames k ?s' off"
            using w(3) f4 [OF s1(2)] by simp
          with w(1,2) show ?thesis by auto
        qed
        show ?thesis
          using c1 c2 c3 c4 by (intro exI [of _ "v # taken"]) blast
      qed
    qed
  qed
qed

lemma vm_copy_l2_nonnull:
  assumes "vm_copy_l2 old_pt new_pt i (j # js) k = Some (OK, k')"
  shows "tabs k new_pt i \<noteq> 0"
  using assms
  by (auto simp: tab_read_def alloc_kpages_def Let_def tabs_bzero tabs_memmove
        split: if_splits list.splits)

lemma vm_copy_l1_copies:
  assumes "vm_copy_l1 old_pt new_pt is k = Some (OK, k')"
    and "distinct is"
    and "distinct (free_blocks k)" and "distinct (free_pages k)"
    and "old_pt \<notin> set (free_blocks k)" and "new_pt \<notin> set (free_blocks k)"
    and "old_pt \<noteq> new_pt"
    and "\<forall>i \<in> set is. tabs k old_pt i \<notin> set (free_blocks k) \<and> tabs k old_pt i \<noteq> new_pt"
    and "\<forall>i \<in> set is. \<forall>j < PT_SIZE. tabs k old_pt i \<noteq> 0 \<longrightarrow> tabs k (tabs k old_pt i) j \<noteq> 0 \<longrightarrow>
           PADDR_TO_KVADDR (tabs k (tabs k old_pt i) j AND PAGE_FRAME) \<notin> set (free_pages k)"
  shows "\<exists>tb tp. free_blocks k = tb @ free_blocks k' \<and> free_pages k = tp @ free_pages k'
        \<and> (\<forall>x. x \<noteq> new_pt \<longrightarrow> x \<notin> set tb \<longrightarrow> tabs k' x = tabs k x)
        \<and> (\<forall>i. i \<notin> set is \<longrightarrow> tabs k' new_pt i = tabs k new_pt i)
        \<and> (\<forall>f. f \<notin> set tp \<longrightarrow> frames k' f = frames k f)
        \<and> (\<forall>i \<in> set is. tabs k old_pt i = 0 \<longrightarrow> tabs k' new_pt i = tabs k new_pt i)
        \<and> (\<forall>i \<in> set is. tabs k old_pt i \<noteq> 0 \<longrightarrow>
              tabs k' new_pt i \<in> set tb \<and> tabs k' new_pt i \<noteq> 0 \<and>
              (\<forall>j < PT_SIZE.
                 (tabs k (tabs k old_pt i) j = 0 \<longrightarrow> tabs k' (tabs k' new_pt i) j = 0) \<and>
                 (tabs k (tabs k old_pt i) j \<noteq> 0 \<longrightarrow>
                    (\<exists>v \<in> set tp.
                       tabs k' (tabs k' new_pt i) j =
                         (KVADDR_TO_PADDR v AND PAGE_FRAME)
                           OR (tabs k (tabs k old_pt i) j AND TLBLO_DIRTY) OR TLBLO_VALID
                     \<and> (\<forall>off < unat PAGE_SIZE.
                           frames k' v off =
                           frames k (PADDR_TO_KVADDR (tabs k (tabs k old_pt i) j AND PAGE_FRAME)) off)))))"
  using assms
proof (induction "is" arbitrary: k)
  case Nil
  then show ?case by simp
next
  case (Cons i0 rest)
  let ?o0 = "tabs k old_pt i0"
  from Cons.prems(2) have di: "i0 \<notin> set rest" "distinct rest" by simp_all
  show ?case
  proof (cases "?o0 = 0")
    case True
    from Cons.prems(1) True have run: "vm_copy_l1 old_pt new_pt rest k = Some (OK, k')"
      by (simp add: tab_read_def)
    from Cons.IH [OF run di(2) Cons.prems(3-7)] Cons.prems(8,9)
    obtain tb tp where t: "free_blocks k = tb @ free_blocks k'" "free_pages k = tp @ free_pages k'"
        "\<forall>x. x \<noteq> new_pt \<longrightarrow> x \<notin> set tb \<longrightarrow> tabs k' x = tabs k x"
        "\<forall>i. i \<notin> set rest \<longrightarrow> tabs k' new_pt i = tabs k new_pt i"
        "\<forall>f. f \<notin> set tp \<longrightarrow> frames k' f = frames k f"
        "\<forall>i \<in> set rest. tabs k old_pt i = 0 \<longrightarrow> tabs k' new_pt i = tabs k new_pt i"
        "\<forall>i \<in> set rest. tabs k old_pt i \<noteq> 0 \<longrightarrow>
              tabs k' new_pt i \<in> set tb \<and> tabs k' new_pt i \<noteq> 0 \<and>
              (\<forall>j < PT_SIZE.
                 (tabs k (tabs k old_pt i) j = 0 \<longrightarrow> tabs k' (tabs k' new_pt i) j = 0) \<and>
                 (tabs k (tabs k old_pt i) j \<noteq> 0 \<longrightarrow>
                    (\<exists>v \<in> set tp.
                       tabs k' (tabs k' new_pt i) j =
                         (KVADDR_TO_PADDR v AND PAGE_FRAME)
                           OR (tabs k (tabs k old_pt i) j AND TLBLO_DIRTY) OR TLBLO_VALID
                     \<and> (\<forall>off < unat PAGE_SIZE.
                           frames k' v off =
                           frames k (PADDR_TO_KVADDR (tabs k (tabs k old_pt i) j AND PAGE_FRAME)) off))))"
      by auto
    show ?thesis
      apply (rule exI [of _ tb], rule exI [of _ tp])
      using t True di(1) by auto
  next
    case False
    have ne: "[0..<PT_SIZE] = 0 # [Suc 0..<PT_SIZE]"
      by (rule upt_conv_Cons) (simp add: PT_SIZE_def)
    obtain p k1 where km: "kmalloc_table k = (p, k1)" by (cases "kmalloc_table k")
    let ?k1' = "tab_write new_pt i0 p k1"
    from Cons.prems(1) False km
    obtain k2 where inner: "vm_copy_l2 old_pt new_pt i0 [0..<PT_SIZE] ?k1' = Some (OK, k2)"
      and run: "vm_copy_l1 old_pt new_pt rest k2 = Some (OK, k')"
      by (auto simp: tab_read_def split: option.splits if_splits)
    have slot: "tabs ?k1' new_pt i0 = p" by (simp add: tab_write_def)
    have pnz: "p \<noteq> 0"
      using vm_copy_l2_nonnull [of old_pt new_pt i0 0 "[Suc 0..<PT_SIZE]" ?k1' k2] inner slot
      by (simp add: ne)
    with km obtain bs where fb: "free_blocks k = p # bs"
      and k1: "k1 = k\<lparr>free_blocks := bs, used_blocks := p # used_blocks k\<rparr>"
      by (auto simp: kmalloc_table_def split: list.splits)
    from fb Cons.prems(3) have pb: "p \<notin> set bs" "distinct bs" by simp_all
    from fb Cons.prems(5,6) have pp: "p \<noteq> old_pt" "p \<noteq> new_pt" by auto
    from fb Cons.prems(8) have po: "p \<noteq> ?o0" "?o0 \<noteq> new_pt" by auto
    have t1: "tabs ?k1' x = tabs k x" if "x \<noteq> new_pt" for x
      using that by (simp add: tab_write_def k1)
    have t1n: "tabs ?k1' new_pt i = tabs k new_pt i" if "i \<noteq> i0" for i
      using that by (simp add: tab_write_def k1)
    have o1: "tabs ?k1' old_pt = tabs k old_pt"
      using Cons.prems(7) by (simp add: t1)
    have fr1: "free_pages ?k1' = free_pages k" "frames ?k1' = frames k" "free_blocks ?k1' = bs"
      by (simp_all add: tab_write_def k1)
    \<comment> \<open>the inner loop\<close>
    from vm_copy_l2_tabs [OF inner] slot pp
    have i_tabs: "\<forall>x. x \<noteq> p \<longrightarrow> tabs k2 x = tabs ?k1' x" and i_blk: "free_blocks k2 = bs"
      by (simp_all add: fr1)
    have "\<exists>taken. free_pages ?k1' = taken @ free_pages k2
       \<and> (\<forall>f. f \<notin> set taken \<longrightarrow> frames k2 f = frames ?k1' f)
       \<and> (\<forall>j \<in> set [0..<PT_SIZE]. tabs ?k1' (tabs ?k1' old_pt i0) j = 0 \<longrightarrow>
             tabs k2 (tabs ?k1' new_pt i0) j = 0)
       \<and> (\<forall>j \<in> set [0..<PT_SIZE]. tabs ?k1' (tabs ?k1' old_pt i0) j \<noteq> 0 \<longrightarrow>
             PADDR_TO_KVADDR (tabs ?k1' (tabs ?k1' old_pt i0) j AND PAGE_FRAME) \<notin> set (free_pages ?k1') \<longrightarrow>
             (\<exists>v \<in> set taken.
                 tabs k2 (tabs ?k1' new_pt i0) j =
                   (KVADDR_TO_PADDR v AND PAGE_FRAME)
                     OR (tabs ?k1' (tabs ?k1' old_pt i0) j AND TLBLO_DIRTY) OR TLBLO_VALID
               \<and> (\<forall>off < unat PAGE_SIZE.
                     frames k2 v off =
                     frames ?k1' (PADDR_TO_KVADDR (tabs ?k1' (tabs ?k1' old_pt i0) j AND PAGE_FRAME)) off)))"
      using inner
    proof (rule vm_copy_l2_copies)
      show "tabs ?k1' new_pt i0 \<noteq> new_pt" using slot pp by simp
      show "tabs ?k1' new_pt i0 \<noteq> old_pt" using slot pp by simp
      show "tabs ?k1' new_pt i0 \<noteq> tabs ?k1' old_pt i0" using slot po o1 by simp
      show "distinct [0..<PT_SIZE]" by simp
      show "distinct (free_pages ?k1')" using Cons.prems(4) by (simp add: fr1)
    qed
    then obtain tp0 where i0facts: "free_pages k = tp0 @ free_pages k2"
       "\<forall>f. f \<notin> set tp0 \<longrightarrow> frames k2 f = frames k f"
       "\<forall>j < PT_SIZE. tabs k ?o0 j = 0 \<longrightarrow> tabs k2 p j = 0"
       "\<forall>j < PT_SIZE. tabs k ?o0 j \<noteq> 0 \<longrightarrow>
             PADDR_TO_KVADDR (tabs k ?o0 j AND PAGE_FRAME) \<notin> set (free_pages k) \<longrightarrow>
             (\<exists>v \<in> set tp0.
                 tabs k2 p j = (KVADDR_TO_PADDR v AND PAGE_FRAME) OR (tabs k ?o0 j AND TLBLO_DIRTY) OR TLBLO_VALID
               \<and> (\<forall>off < unat PAGE_SIZE.
                     frames k2 v off = frames k (PADDR_TO_KVADDR (tabs k ?o0 j AND PAGE_FRAME)) off))"
      unfolding slot o1 fr1 t1 [OF po(2)] by auto
    \<comment> \<open>the state after the inner loop, seen from the start\<close>
    have t2: "tabs k2 x = tabs k x" if "x \<noteq> new_pt" "x \<noteq> p" for x
      using that i_tabs t1 by simp
    have t2n: "tabs k2 new_pt i = tabs k new_pt i" if "i \<noteq> i0" for i
      using that i_tabs t1n pp by simp
    have t2s: "tabs k2 new_pt i0 = p"
      using i_tabs slot pp by simp
    have o2: "tabs k2 old_pt = tabs k old_pt"
      using t2 pp Cons.prems(7) by simp
    have src2: "tabs k2 (tabs k old_pt i) = tabs k (tabs k old_pt i)" if "i \<in> set rest" for i
      using that Cons.prems(8) fb by (intro t2) auto
    have sub: "set (free_pages k2) \<subseteq> set (free_pages k)" using i0facts(1) by auto
    have dp2: "distinct (free_pages k2)" using Cons.prems(4) i0facts(1) by simp
    have disj0: "set tp0 \<inter> set (free_pages k2) = {}" using Cons.prems(4) i0facts(1) by simp
    \<comment> \<open>the rest of the outer loop\<close>
    have "\<exists>tb tp. free_blocks k2 = tb @ free_blocks k' \<and> free_pages k2 = tp @ free_pages k'
        \<and> (\<forall>x. x \<noteq> new_pt \<longrightarrow> x \<notin> set tb \<longrightarrow> tabs k' x = tabs k2 x)
        \<and> (\<forall>i. i \<notin> set rest \<longrightarrow> tabs k' new_pt i = tabs k2 new_pt i)
        \<and> (\<forall>f. f \<notin> set tp \<longrightarrow> frames k' f = frames k2 f)
        \<and> (\<forall>i \<in> set rest. tabs k2 old_pt i = 0 \<longrightarrow> tabs k' new_pt i = tabs k2 new_pt i)
        \<and> (\<forall>i \<in> set rest. tabs k2 old_pt i \<noteq> 0 \<longrightarrow>
              tabs k' new_pt i \<in> set tb \<and> tabs k' new_pt i \<noteq> 0 \<and>
              (\<forall>j < PT_SIZE.
                 (tabs k2 (tabs k2 old_pt i) j = 0 \<longrightarrow> tabs k' (tabs k' new_pt i) j = 0) \<and>
                 (tabs k2 (tabs k2 old_pt i) j \<noteq> 0 \<longrightarrow>
                    (\<exists>v \<in> set tp.
                       tabs k' (tabs k' new_pt i) j =
                         (KVADDR_TO_PADDR v AND PAGE_FRAME)
                           OR (tabs k2 (tabs k2 old_pt i) j AND TLBLO_DIRTY) OR TLBLO_VALID
                     \<and> (\<forall>off < unat PAGE_SIZE.
                           frames k' v off =
                           frames k2 (PADDR_TO_KVADDR (tabs k2 (tabs k2 old_pt i) j AND PAGE_FRAME)) off)))))"
      using run di(2)
    proof (rule Cons.IH)
      show "distinct (free_blocks k2)" using pb i_blk by simp
      show "distinct (free_pages k2)" by (rule dp2)
      show "old_pt \<notin> set (free_blocks k2)" using Cons.prems(5) fb i_blk by simp
      show "new_pt \<notin> set (free_blocks k2)" using Cons.prems(6) fb i_blk by simp
      show "old_pt \<noteq> new_pt" by (rule Cons.prems(7))
      show "\<forall>i \<in> set rest. tabs k2 old_pt i \<notin> set (free_blocks k2) \<and> tabs k2 old_pt i \<noteq> new_pt"
        using Cons.prems(8) fb i_blk o2 by simp
      show "\<forall>i \<in> set rest. \<forall>j < PT_SIZE. tabs k2 old_pt i \<noteq> 0 \<longrightarrow> tabs k2 (tabs k2 old_pt i) j \<noteq> 0 \<longrightarrow>
           PADDR_TO_KVADDR (tabs k2 (tabs k2 old_pt i) j AND PAGE_FRAME) \<notin> set (free_pages k2)"
        using Cons.prems(9) sub o2 src2 by auto
    qed
    then obtain tb' tp' where r: "bs = tb' @ free_blocks k'" "free_pages k2 = tp' @ free_pages k'"
        "\<forall>x. x \<noteq> new_pt \<longrightarrow> x \<notin> set tb' \<longrightarrow> tabs k' x = tabs k2 x"
        "\<forall>i. i \<notin> set rest \<longrightarrow> tabs k' new_pt i = tabs k2 new_pt i"
        "\<forall>f. f \<notin> set tp' \<longrightarrow> frames k' f = frames k2 f"
        "\<forall>i \<in> set rest. tabs k old_pt i = 0 \<longrightarrow> tabs k' new_pt i = tabs k2 new_pt i"
        "\<forall>i \<in> set rest. tabs k old_pt i \<noteq> 0 \<longrightarrow>
              tabs k' new_pt i \<in> set tb' \<and> tabs k' new_pt i \<noteq> 0 \<and>
              (\<forall>j < PT_SIZE.
                 (tabs k2 (tabs k old_pt i) j = 0 \<longrightarrow> tabs k' (tabs k' new_pt i) j = 0) \<and>
                 (tabs k2 (tabs k old_pt i) j \<noteq> 0 \<longrightarrow>
                    (\<exists>v \<in> set tp'.
                       tabs k' (tabs k' new_pt i) j =
                         (KVADDR_TO_PADDR v AND PAGE_FRAME)
                           OR (tabs k2 (tabs k old_pt i) j AND TLBLO_DIRTY) OR TLBLO_VALID
                     \<and> (\<forall>off < unat PAGE_SIZE.
                           frames k' v off =
                           frames k2 (PADDR_TO_KVADDR (tabs k2 (tabs k old_pt i) j AND PAGE_FRAME)) off))))"
      unfolding i_blk o2 by auto
    have ptb: "p \<notin> set tb'" using pb(1) r(1) by auto
    have tp'sub: "set tp' \<subseteq> set (free_pages k2)" using r(2) by auto
    \<comment> \<open>putting the two together\<close>
    have c1: "free_blocks k = (p # tb') @ free_blocks k'" using fb r(1) by simp
    have c2: "free_pages k = (tp0 @ tp') @ free_pages k'" using i0facts(1) r(2) by simp
    have c3: "tabs k' x = tabs k x" if "x \<noteq> new_pt" "x \<notin> set (p # tb')" for x
      using that r(3) t2 by simp
    have c4: "tabs k' new_pt i = tabs k new_pt i" if "i \<notin> set (i0 # rest)" for i
      using that r(4) t2n by simp
    have c5: "frames k' f = frames k f" if "f \<notin> set (tp0 @ tp')" for f
      using that r(5) i0facts(2) by simp
    have c6: "tabs k' new_pt i = tabs k new_pt i" if "i \<in> set (i0 # rest)" "tabs k old_pt i = 0" for i
    proof -
      from that False have "i \<in> set rest" "i \<noteq> i0" using di(1) by auto
      with that(2) r(6) t2n show ?thesis by simp
    qed
    have c7: "tabs k' new_pt i \<in> set (p # tb') \<and> tabs k' new_pt i \<noteq> 0 \<and>
              (\<forall>j < PT_SIZE.
                 (tabs k (tabs k old_pt i) j = 0 \<longrightarrow> tabs k' (tabs k' new_pt i) j = 0) \<and>
                 (tabs k (tabs k old_pt i) j \<noteq> 0 \<longrightarrow>
                    (\<exists>v \<in> set (tp0 @ tp').
                       tabs k' (tabs k' new_pt i) j =
                         (KVADDR_TO_PADDR v AND PAGE_FRAME)
                           OR (tabs k (tabs k old_pt i) j AND TLBLO_DIRTY) OR TLBLO_VALID
                     \<and> (\<forall>off < unat PAGE_SIZE.
                           frames k' v off =
                           frames k (PADDR_TO_KVADDR (tabs k (tabs k old_pt i) j AND PAGE_FRAME)) off))))"
      if mem: "i \<in> set (i0 # rest)" and nz: "tabs k old_pt i \<noteq> 0" for i
    proof (cases "i = i0")
      case True
      have s': "tabs k' new_pt i0 = p" using r(4) di(1) t2s by simp
      have tp: "tabs k' p = tabs k2 p" using r(3) pp ptb by simp
      have ent: "\<exists>v \<in> set (tp0 @ tp').
                       tabs k' p j = (KVADDR_TO_PADDR v AND PAGE_FRAME) OR (tabs k ?o0 j AND TLBLO_DIRTY) OR TLBLO_VALID
                     \<and> (\<forall>off < unat PAGE_SIZE.
                           frames k' v off = frames k (PADDR_TO_KVADDR (tabs k ?o0 j AND PAGE_FRAME)) off)"
        if j: "j < PT_SIZE" and e: "tabs k ?o0 j \<noteq> 0" for j
      proof -
        have "PADDR_TO_KVADDR (tabs k ?o0 j AND PAGE_FRAME) \<notin> set (free_pages k)"
          using Cons.prems(9) j e False by simp
        with i0facts(4) j e obtain v where v: "v \<in> set tp0"
          "tabs k2 p j = (KVADDR_TO_PADDR v AND PAGE_FRAME) OR (tabs k ?o0 j AND TLBLO_DIRTY) OR TLBLO_VALID"
          "\<forall>off < unat PAGE_SIZE. frames k2 v off = frames k (PADDR_TO_KVADDR (tabs k ?o0 j AND PAGE_FRAME)) off"
          by blast
        have "v \<notin> set tp'" using v(1) disj0 tp'sub by auto
        then have "frames k' v = frames k2 v" using r(5) by simp
        with v tp show ?thesis by auto
      qed
      show ?thesis
        unfolding True s' using pnz i0facts(3) tp ent by simp
    next
      case False
      with mem have ir: "i \<in> set rest" by simp
      from r(7) ir nz have a: "tabs k' new_pt i \<in> set tb'" "tabs k' new_pt i \<noteq> 0"
        and b: "\<forall>j < PT_SIZE.
                 (tabs k2 (tabs k old_pt i) j = 0 \<longrightarrow> tabs k' (tabs k' new_pt i) j = 0) \<and>
                 (tabs k2 (tabs k old_pt i) j \<noteq> 0 \<longrightarrow>
                    (\<exists>v \<in> set tp'.
                       tabs k' (tabs k' new_pt i) j =
                         (KVADDR_TO_PADDR v AND PAGE_FRAME)
                           OR (tabs k2 (tabs k old_pt i) j AND TLBLO_DIRTY) OR TLBLO_VALID
                     \<and> (\<forall>off < unat PAGE_SIZE.
                           frames k' v off =
                           frames k2 (PADDR_TO_KVADDR (tabs k2 (tabs k old_pt i) j AND PAGE_FRAME)) off)))"
        by auto
      have ent: "\<exists>v \<in> set (tp0 @ tp').
                       tabs k' (tabs k' new_pt i) j =
                         (KVADDR_TO_PADDR v AND PAGE_FRAME) OR (tabs k (tabs k old_pt i) j AND TLBLO_DIRTY) OR TLBLO_VALID
                     \<and> (\<forall>off < unat PAGE_SIZE.
                           frames k' v off = frames k (PADDR_TO_KVADDR (tabs k (tabs k old_pt i) j AND PAGE_FRAME)) off)"
        if j: "j < PT_SIZE" and e: "tabs k (tabs k old_pt i) j \<noteq> 0" for j
      proof -
        let ?s = "PADDR_TO_KVADDR (tabs k (tabs k old_pt i) j AND PAGE_FRAME)"
        have sf: "?s \<notin> set (free_pages k)"
          using Cons.prems(9) j e nz ir by simp
        then have "?s \<notin> set tp0" using i0facts(1) by auto
        then have fs: "frames k2 ?s = frames k ?s" using i0facts(2) by simp
        from b j e src2 [OF ir] obtain v where v: "v \<in> set tp'"
          "tabs k' (tabs k' new_pt i) j =
             (KVADDR_TO_PADDR v AND PAGE_FRAME) OR (tabs k (tabs k old_pt i) j AND TLBLO_DIRTY) OR TLBLO_VALID"
          "\<forall>off < unat PAGE_SIZE. frames k' v off = frames k2 ?s off"
          by auto
        with fs show ?thesis by auto
      qed
      show ?thesis
        using a b ent src2 [OF ir] by simp
    qed
    show ?thesis
      apply (rule exI [of _ "p # tb'"], rule exI [of _ "tp0 @ tp'"])
      using c1 c2 c3 c4 c5 c6 c7 by blast
  qed
qed



lemma entry_dirty_bit:
  "((x AND PAGE_FRAME) OR (e AND TLBLO_DIRTY) OR TLBLO_VALID) AND TLBLO_DIRTY = e AND TLBLO_DIRTY"
proof -
  have g: "((x AND NOT (mask 12)) OR (e AND 2 ^ n) OR 2 ^ m) AND 2 ^ n = e AND 2 ^ n"
    if "n < 12" "m \<noteq> n" for n m :: nat and x e :: "32 word"
    using that by - (rule bit_word_eqI, auto simp: bit_simps)
  show ?thesis unfolding pow_consts by (rule g) simp_all
qed

lemma entry_frame_bits:
  "((x AND PAGE_FRAME) OR (e AND TLBLO_DIRTY) OR TLBLO_VALID) AND PAGE_FRAME = x AND PAGE_FRAME"
proof -
  have g: "((x AND NOT (mask 12)) OR (e AND 2 ^ n) OR 2 ^ m) AND NOT (mask 12) = x AND NOT (mask 12)"
    if "n < 12" "m < 12" for n m :: nat and x e :: "32 word"
    using that by - (rule bit_word_eqI, auto simp: bit_simps)
  show ?thesis unfolding pow_consts by (rule g) simp_all
qed

lemma kvaddr_roundtrip:
  assumes "v AND PAGE_FRAME = v"
  shows "PADDR_TO_KVADDR (KVADDR_TO_PADDR v AND PAGE_FRAME) = v"
proof -
  have k: "(0x80000000 :: 32 word) AND PAGE_FRAME = 0x80000000"
    by (simp add: PAGE_FRAME_def)
  have "(v XOR 0x80000000) AND PAGE_FRAME = v XOR 0x80000000"
    using assms k by (simp add: bit.conj_xor_distrib2)
  then have "KVADDR_TO_PADDR v AND PAGE_FRAME = v - 0x80000000"
    by (simp add: KVADDR_TO_PADDR_def MIPS_KSEG0_def sub_kseg0_xor)
  then show ?thesis
    by (simp add: PADDR_TO_KVADDR_def MIPS_KSEG0_def)
qed



lemma vm_copy_pt_clones:
  assumes run: "vm_copy_pt old_pt new_pt k = Some (OK, k')"
    and "distinct (free_blocks k)" and "distinct (free_pages k)"
    and "old_pt \<notin> set (free_blocks k)" and "new_pt \<notin> set (free_blocks k)"
    and "old_pt \<noteq> new_pt"
    and "\<forall>i < PT_SIZE. tabs k old_pt i \<notin> set (free_blocks k) \<and> tabs k old_pt i \<noteq> new_pt"
    and "\<forall>i < PT_SIZE. \<forall>j < PT_SIZE. tabs k old_pt i \<noteq> 0 \<longrightarrow> tabs k (tabs k old_pt i) j \<noteq> 0 \<longrightarrow>
           PADDR_TO_KVADDR (tabs k (tabs k old_pt i) j AND PAGE_FRAME) \<notin> set (free_pages k)"
    and al: "\<forall>v \<in> set (free_pages k). v AND PAGE_FRAME = v"
    and ij: "i < PT_SIZE" "j < PT_SIZE"
    and res: "tab_read old_pt i k \<noteq> 0" "tab_read (tab_read old_pt i k) j k \<noteq> 0"
  shows "tab_read new_pt i k' \<noteq> 0
     \<and> tab_read (tab_read new_pt i k') j k' \<noteq> 0
     \<and> tab_read (tab_read new_pt i k') j k' AND TLBLO_DIRTY
         = tab_read (tab_read old_pt i k) j k AND TLBLO_DIRTY
     \<and> tab_read (tab_read new_pt i k') j k' AND PAGE_FRAME
         \<noteq> tab_read (tab_read old_pt i k) j k AND PAGE_FRAME
     \<and> (\<forall>off < unat PAGE_SIZE.
           frames k' (PADDR_TO_KVADDR (tab_read (tab_read new_pt i k') j k' AND PAGE_FRAME)) off
           = frames k (PADDR_TO_KVADDR (tab_read (tab_read old_pt i k) j k AND PAGE_FRAME)) off)"
proof -
  let ?e = "tabs k (tabs k old_pt i) j"
  let ?e' = "tabs k' (tabs k' new_pt i) j"
  let ?src = "PADDR_TO_KVADDR (?e AND PAGE_FRAME)"
  from run have run': "vm_copy_l1 old_pt new_pt [0..<PT_SIZE] k = Some (OK, k')"
    by (simp add: vm_copy_pt_def)
  have "\<exists>tb tp. free_blocks k = tb @ free_blocks k' \<and> free_pages k = tp @ free_pages k'
        \<and> (\<forall>x. x \<noteq> new_pt \<longrightarrow> x \<notin> set tb \<longrightarrow> tabs k' x = tabs k x)
        \<and> (\<forall>i. i \<notin> set [0..<PT_SIZE] \<longrightarrow> tabs k' new_pt i = tabs k new_pt i)
        \<and> (\<forall>f. f \<notin> set tp \<longrightarrow> frames k' f = frames k f)
        \<and> (\<forall>i \<in> set [0..<PT_SIZE]. tabs k old_pt i = 0 \<longrightarrow> tabs k' new_pt i = tabs k new_pt i)
        \<and> (\<forall>i \<in> set [0..<PT_SIZE]. tabs k old_pt i \<noteq> 0 \<longrightarrow>
              tabs k' new_pt i \<in> set tb \<and> tabs k' new_pt i \<noteq> 0 \<and>
              (\<forall>j < PT_SIZE.
                 (tabs k (tabs k old_pt i) j = 0 \<longrightarrow> tabs k' (tabs k' new_pt i) j = 0) \<and>
                 (tabs k (tabs k old_pt i) j \<noteq> 0 \<longrightarrow>
                    (\<exists>v \<in> set tp.
                       tabs k' (tabs k' new_pt i) j =
                         (KVADDR_TO_PADDR v AND PAGE_FRAME)
                           OR (tabs k (tabs k old_pt i) j AND TLBLO_DIRTY) OR TLBLO_VALID
                     \<and> (\<forall>off < unat PAGE_SIZE.
                           frames k' v off =
                           frames k (PADDR_TO_KVADDR (tabs k (tabs k old_pt i) j AND PAGE_FRAME)) off)))))"
    using run'
  proof (rule vm_copy_l1_copies)
    show "distinct [0..<PT_SIZE]" by simp
    show "distinct (free_blocks k)" by (rule assms(2))
    show "distinct (free_pages k)" by (rule assms(3))
    show "old_pt \<notin> set (free_blocks k)" by (rule assms(4))
    show "new_pt \<notin> set (free_blocks k)" by (rule assms(5))
    show "old_pt \<noteq> new_pt" by (rule assms(6))
    show "\<forall>i \<in> set [0..<PT_SIZE]. tabs k old_pt i \<notin> set (free_blocks k) \<and> tabs k old_pt i \<noteq> new_pt"
      using assms(7) by simp
    show "\<forall>i \<in> set [0..<PT_SIZE]. \<forall>j < PT_SIZE. tabs k old_pt i \<noteq> 0 \<longrightarrow> tabs k (tabs k old_pt i) j \<noteq> 0 \<longrightarrow>
           PADDR_TO_KVADDR (tabs k (tabs k old_pt i) j AND PAGE_FRAME) \<notin> set (free_pages k)"
      using assms(8) by simp
  qed
  then obtain tb tp where tp: "free_pages k = tp @ free_pages k'"
    and all: "\<forall>i \<in> set [0..<PT_SIZE]. tabs k old_pt i \<noteq> 0 \<longrightarrow>
              tabs k' new_pt i \<in> set tb \<and> tabs k' new_pt i \<noteq> 0 \<and>
              (\<forall>j < PT_SIZE.
                 (tabs k (tabs k old_pt i) j = 0 \<longrightarrow> tabs k' (tabs k' new_pt i) j = 0) \<and>
                 (tabs k (tabs k old_pt i) j \<noteq> 0 \<longrightarrow>
                    (\<exists>v \<in> set tp.
                       tabs k' (tabs k' new_pt i) j =
                         (KVADDR_TO_PADDR v AND PAGE_FRAME)
                           OR (tabs k (tabs k old_pt i) j AND TLBLO_DIRTY) OR TLBLO_VALID
                     \<and> (\<forall>off < unat PAGE_SIZE.
                           frames k' v off =
                           frames k (PADDR_TO_KVADDR (tabs k (tabs k old_pt i) j AND PAGE_FRAME)) off))))"
    by blast
  have iin: "i \<in> set [0..<PT_SIZE]" using ij(1) by simp
  from res have res': "tabs k old_pt i \<noteq> 0" "?e \<noteq> 0" by (simp_all add: tab_read_def)
  from all [rule_format, OF iin res'(1)]
  have nz: "tabs k' new_pt i \<noteq> 0"
    and allj: "\<forall>j < PT_SIZE.
                 (tabs k (tabs k old_pt i) j = 0 \<longrightarrow> tabs k' (tabs k' new_pt i) j = 0) \<and>
                 (tabs k (tabs k old_pt i) j \<noteq> 0 \<longrightarrow>
                    (\<exists>v \<in> set tp.
                       tabs k' (tabs k' new_pt i) j =
                         (KVADDR_TO_PADDR v AND PAGE_FRAME)
                           OR (tabs k (tabs k old_pt i) j AND TLBLO_DIRTY) OR TLBLO_VALID
                     \<and> (\<forall>off < unat PAGE_SIZE.
                           frames k' v off =
                           frames k (PADDR_TO_KVADDR (tabs k (tabs k old_pt i) j AND PAGE_FRAME)) off)))"
    by simp_all
  from allj [rule_format, OF ij(2)] res'(2)
  obtain v where v: "v \<in> set tp"
      "?e' = (KVADDR_TO_PADDR v AND PAGE_FRAME) OR (?e AND TLBLO_DIRTY) OR TLBLO_VALID"
      "\<forall>off < unat PAGE_SIZE. frames k' v off = frames k ?src off"
    by blast
  have vf: "v \<in> set (free_pages k)" using tp v(1) by simp
  then have rt: "PADDR_TO_KVADDR (?e' AND PAGE_FRAME) = v"
    using al by (simp add: v(2) entry_frame_bits kvaddr_roundtrip)
  have srcf: "?src \<notin> set (free_pages k)"
    using assms(8) ij res by (simp add: tab_read_def)
  have diff: "?e' AND PAGE_FRAME \<noteq> ?e AND PAGE_FRAME"
  proof
    assume "?e' AND PAGE_FRAME = ?e AND PAGE_FRAME"
    then have "?src = v" using rt by simp
    with vf srcf show False by simp
  qed
  have "?e' \<noteq> 0" unfolding v(2) by (rule entry_nonzero)
  moreover have "?e' AND TLBLO_DIRTY = ?e AND TLBLO_DIRTY"
    unfolding v(2) by (rule entry_dirty_bit)
  ultimately show ?thesis
    using nz diff v(3) rt by (simp add: tab_read_def)
qed

text \<open>
  C5, on the code: the same duplication returns 0, the page of \<open>0x1000\<close> is resident in
  the source (entry \<open>0x30200\<close> in slot 1 of the second-level array of slot 512), and the
  destination has the sentinel 0 there: no mapping at that virtual page.
\<close>

theorem as_copy_success_without_mapping:
  "as_copy ex_as ex_low = Some (OK, Some ex_newas, ex_half)
   \<and> unat (pt1_bits 0x1000) = 512 \<and> unat (pt2_bits 0x1000) = 1
   \<and> tab_read (tab_read (pagetable ex_as) 512 ex_low) 1 ex_low = 0x30200
   \<and> tab_read (pagetable ex_newas) 512 ex_half = 0x80050000
   \<and> tab_read (tab_read (pagetable ex_newas) 512 ex_half) 1 ex_half = 0"
proof -
  have i: "unat (pt1_bits 0x1000) = 512" "unat (pt2_bits 0x1000) = 1"
    by (simp_all add: pt1_bits_def pt2_bits_def KVADDR_TO_PADDR_def MIPS_KSEG0_def)
  have s: "tab_read (tab_read (pagetable ex_as) 512 ex_low) 1 ex_low = 0x30200"
    by (simp add: tab_read_def ex_as_def ex_low_def ex_resident_def ex_tabs_def)
  have d: "tab_read (pagetable ex_newas) 512 ex_half = 0x80050000"
    "tab_read (tab_read (pagetable ex_newas) 512 ex_half) 1 ex_half = 0"
    by (simp_all add: tab_read_def ex_newas_def ex_half_def ex_mid_def ex_tabs_def)
  show ?thesis
    using i s d by (simp add: as_copy_ex_low)
qed

end
